theory Spec2Isabelle
  imports Main "HOL-Library.Word"
begin

unbundle bit_operations_syntax

section \<open>Values shared by the whole program\<close>

text \<open>
  The repository is a small Go authentication service: a credential and token store on
  top of SQL (package-level functions \<open>Authenticate\<close>, \<open>GenerateToken\<close>, \<open>Lookup\<close>,
  \<open>ReapTokens\<close>, \<open>RegisterUser\<close>, \<open>LookupByEmail\<close>), the type \<open>DBAuthenticator\<close> that
  runs them against a database handle, the 16-byte \<open>Token\<close> with its base64 text form, and
  the HTTP handlers of \<open>http.go\<close>.

  Go values are embedded as follows. A \<open>byte\<close> is an 8-bit word, \<open>uint\<close> a 64-bit word
  (the 64-bit platforms, where \<open>strconv.IntSize = 64\<close>). A Go \<open>string\<close> and a \<open>[]byte\<close>
  holding text are a \<open>string\<close> (a list of 8-bit characters). An \<open>error\<close> result is an
  \<open>error option\<close>, \<open>None\<close> being \<open>nil\<close>. A function that can panic returns
  \<open>'a may_panic\<close>.
\<close>

type_synonym byte = "8 word"
type_synonym uint = "64 word"

text \<open>
  Error values. The two sentinels of the repository, the sentinels of the libraries the
  code compares against with \<open>errors.Is\<close>, \<open>base64.CorruptInputError\<close>, an error of a
  collaborator that the code only passes on (\<open>External\<close>, carrying its message), and the two
  shapes \<open>fmt.Errorf\<close> is used in: with \<open>%w\<close> (\<open>Wrapped\<close>: the context before the colon
  and the wrapped error) and without (\<open>Errorf\<close>: only a message).
\<close>

datatype error =
    errBadCredentials
  | errInvalidToken
  | ErrNoRows
  | ErrMismatchedHashAndPassword
  | ErrTxDone
  | ErrNoCookie
  | CorruptInputError int
  | External string
  | Errorf string
  | Wrapped string error

text \<open>
  \<open>errors.Is(err, target)\<close> for a sentinel \<open>target\<close>: follow the chain of \<open>%w\<close> wrappers
  down to an error that is the target.
\<close>

fun errors_Is :: "error \<Rightarrow> error \<Rightarrow> bool" where
  "errors_Is (Wrapped ctx e) target = errors_Is e target"
| "errors_Is e target = (e = target)"

fun digits :: "nat \<Rightarrow> string" where
  "digits n = (if n < 10 then [char_of (48 + n)] else digits (n div 10) @ [char_of (48 + n mod 10)])"

declare digits.simps [simp del]

definition itoa :: "int \<Rightarrow> string" where
  "itoa i = (if i < 0 then CHR ''-'' # digits (nat (- i)) else digits (nat i))"

text \<open>\<open>err.Error()\<close>, which is what \<open>%v\<close> prints for an error.\<close>

fun Error :: "error \<Rightarrow> string" where
  "Error errBadCredentials = ''failed to authenticate, username or password is incorrect''"
| "Error errInvalidToken = ''invalid token''"
| "Error ErrNoRows = ''sql: no rows in result set''"
| "Error ErrMismatchedHashAndPassword =
     ''crypto/bcrypt: hashedPassword is not the hash of the given password''"
| "Error ErrTxDone = ''sql: transaction has already been committed or rolled back''"
| "Error ErrNoCookie = ''http: named cookie not present''"
| "Error (CorruptInputError n) = ''illegal base64 data at input byte '' @ itoa n"
| "Error (External msg) = msg"
| "Error (Errorf msg) = msg"
| "Error (Wrapped ctx e) = ctx @ '': '' @ Error e"

datatype 'a may_panic = Return 'a | Panic

section \<open>Standard base64, as \<open>encoding/base64\<close> computes it\<close>

text \<open>
  \<open>Token.String\<close> and \<open>Token.UnmarshalText\<close> call \<open>base64.StdEncoding\<close>: the alphabet
  below, padding character \<open>=\<close>, not strict. What \<open>UnmarshalText\<close> does on a malformed
  cookie is decided by \<open>Decode\<close>, which writes into the destination as it goes and relies
  on the caller for its size, so the decoder is embedded statement by statement:
  \<open>Encode\<close>, \<open>assemble32\<close>, \<open>assemble64\<close>, \<open>decodeQuantum\<close> and the three loops of
  \<open>Decode\<close>.
\<close>

definition encodeStd :: string where
  "encodeStd = ''ABCDEFGHIJKLMNOPQRSTUVWXYZabcdefghijklmnopqrstuvwxyz0123456789+/''"

definition padChar :: char where
  "padChar = CHR ''=''"

text \<open>
  \<open>NewEncoding\<close> fills \<open>decodeMap\<close> with \<open>0xFF\<close> and then stores \<open>i\<close> at the index of the
  \<open>i\<close>-th character of the alphabet.
\<close>

definition decodeMap :: "char \<Rightarrow> byte" where
  "decodeMap = fold (\<lambda>i m. m(encodeStd ! i := of_nat i)) [0..<length encodeStd] (\<lambda>_. 0xFF)"

definition encode :: "uint \<Rightarrow> char" where
  "encode k = encodeStd ! unat k"

text \<open>
  \<open>Encode\<close>: three source bytes give four characters; one or two remaining bytes give two
  or three characters and padding. \<open>EncodeToString\<close> returns exactly these characters.
\<close>

fun Encode :: "byte list \<Rightarrow> string" where
  "Encode (b0 # b1 # b2 # src) =
     (let val = push_bit 16 (ucast b0 :: uint) OR push_bit 8 (ucast b1) OR ucast b2
      in encode (drop_bit 18 val AND 0x3F) # encode (drop_bit 12 val AND 0x3F) #
         encode (drop_bit 6 val AND 0x3F) # encode (val AND 0x3F) # Encode src)"
| "Encode [b0, b1] =
     (let val = push_bit 16 (ucast b0 :: uint) OR push_bit 8 (ucast b1)
      in [encode (drop_bit 18 val AND 0x3F), encode (drop_bit 12 val AND 0x3F),
          encode (drop_bit 6 val AND 0x3F), padChar])"
| "Encode [b0] =
     (let val = push_bit 16 (ucast b0 :: uint)
      in [encode (drop_bit 18 val AND 0x3F), encode (drop_bit 12 val AND 0x3F), padChar, padChar])"
| "Encode [] = []"

text \<open>
  \<open>assemble64\<close> and \<open>assemble32\<close>: the fast paths. The bitwise OR of the decoded digits is
  \<open>0xFF\<close> when one of them is invalid; then the caller falls back to \<open>decodeQuantum\<close>.
\<close>

definition assemble64 ::
  "byte \<Rightarrow> byte \<Rightarrow> byte \<Rightarrow> byte \<Rightarrow> byte \<Rightarrow> byte \<Rightarrow> byte \<Rightarrow> byte \<Rightarrow> 64 word option" where
  "assemble64 n1 n2 n3 n4 n5 n6 n7 n8 =
     (if n1 OR n2 OR n3 OR n4 OR n5 OR n6 OR n7 OR n8 = 0xFF then None
      else Some (push_bit 58 (ucast n1) OR push_bit 52 (ucast n2) OR push_bit 46 (ucast n3) OR
                 push_bit 40 (ucast n4) OR push_bit 34 (ucast n5) OR push_bit 28 (ucast n6) OR
                 push_bit 22 (ucast n7) OR push_bit 16 (ucast n8)))"

definition assemble32 :: "byte \<Rightarrow> byte \<Rightarrow> byte \<Rightarrow> byte \<Rightarrow> 32 word option" where
  "assemble32 n1 n2 n3 n4 =
     (if n1 OR n2 OR n3 OR n4 = 0xFF then None
      else Some (push_bit 26 (ucast n1) OR push_bit 20 (ucast n2) OR push_bit 14 (ucast n3) OR
                 push_bit 8 (ucast n4)))"

text \<open>
  \<open>binary.BigEndian.PutUint64(dst[n:], v)\<close> and \<open>PutUint32\<close>: eight, respectively four,
  bytes are stored from offset \<open>n\<close>. Their callers have checked that the bytes are there.
\<close>

definition PutUint64 :: "byte list \<Rightarrow> nat \<Rightarrow> 64 word \<Rightarrow> byte list" where
  "PutUint64 b off v =
     b[off := ucast (drop_bit 56 v), off + 1 := ucast (drop_bit 48 v),
       off + 2 := ucast (drop_bit 40 v), off + 3 := ucast (drop_bit 32 v),
       off + 4 := ucast (drop_bit 24 v), off + 5 := ucast (drop_bit 16 v),
       off + 6 := ucast (drop_bit 8 v), off + 7 := ucast v]"

definition PutUint32 :: "byte list \<Rightarrow> nat \<Rightarrow> 32 word \<Rightarrow> byte list" where
  "PutUint32 b off v =
     b[off := ucast (drop_bit 24 v), off + 1 := ucast (drop_bit 16 v),
       off + 2 := ucast (drop_bit 8 v), off + 3 := ucast v]"

definition is_newline :: "char \<Rightarrow> bool" where
  "is_newline c = (c = CHR 0x0A \<or> c = CHR 0x0D)"

text \<open>
  The source walks \<open>src\<close> with an index \<open>si\<close>. Here the pair is the index and the unread
  suffix \<open>src[si:]\<close>, so \<open>len(src) == si\<close> is the empty suffix and \<open>len(src)\<close> is
  \<open>si + length rest\<close>.

  \<open>skip_newlines\<close> is the loop
  \<open>for si < len(src) && (src[si] == '\n' || src[si] == '\r') { si++ }\<close>.
\<close>

fun skip_newlines :: "nat \<Rightarrow> string \<Rightarrow> nat \<times> string" where
  "skip_newlines si [] = (si, [])"
| "skip_newlines si (c # rest) =
     (if is_newline c then skip_newlines (si + 1) rest else (si, c # rest))"

text \<open>
  The \<open>for j\<close> loop of \<open>decodeQuantum\<close> either returns from the function
  (\<open>QReturn si rest err\<close> for \<open>return si, 0, err\<close>) or leaves the loop with the digits
  read, their number \<open>dlen\<close> and possibly the trailing-garbage error
  (\<open>QBreak dbuf dlen si rest err\<close>).
\<close>

datatype qloop =
    QReturn nat string "error option"
  | QBreak "byte list" nat nat string "error option"

text \<open>After the padding: skip newlines; anything left is trailing garbage.\<close>

definition quantum_pad_end :: "byte list \<Rightarrow> nat \<Rightarrow> nat \<Rightarrow> string \<Rightarrow> qloop" where
  "quantum_pad_end dbuf j si rest =
     (case skip_newlines si rest of (si', rest') \<Rightarrow>
        QBreak dbuf j si' rest'
          (if rest' \<noteq> [] then Some (CorruptInputError (int si')) else None))"

text \<open>
  One pass of the loop body per equation. A newline does \<open>j--; continue\<close>, so \<open>j\<close> stays.
  With a padding character configured, input ending inside a quantum is corrupt at
  \<open>si - j\<close>.
\<close>

fun quantum_loop :: "byte list \<Rightarrow> nat \<Rightarrow> nat \<Rightarrow> string \<Rightarrow> qloop" where
  "quantum_loop dbuf j si [] =
     (if 4 \<le> j then QBreak dbuf 4 si [] None
      else if j = 0 then QReturn si [] None
      else QReturn si [] (Some (CorruptInputError (int si - int j))))"
| "quantum_loop dbuf j si (c # rest) =
     (if 4 \<le> j then QBreak dbuf 4 si (c # rest) None
      else if decodeMap c \<noteq> 0xFF then quantum_loop (dbuf[j := decodeMap c]) (j + 1) (si + 1) rest
      else if is_newline c then quantum_loop dbuf j (si + 1) rest
      else if c \<noteq> padChar then QReturn (si + 1) rest (Some (CorruptInputError (int si)))
      else if j = 0 \<or> j = 1 then QReturn (si + 1) rest (Some (CorruptInputError (int si)))
      else if j = 2 then
        (case skip_newlines (si + 1) rest of
           (si', []) \<Rightarrow> QReturn si' [] (Some (CorruptInputError (int si')))
         | (si', c' # rest') \<Rightarrow>
             if c' \<noteq> padChar then QReturn si' (c' # rest') (Some (CorruptInputError (int si' - 1)))
             else quantum_pad_end dbuf j (si' + 1) rest')
      else quantum_pad_end dbuf j (si + 1) rest)"

text \<open>
  A store \<open>dst[i] = v\<close> into a slice: out of range it panics (\<open>None\<close>).
\<close>

definition store :: "byte list \<Rightarrow> nat \<Rightarrow> byte \<Rightarrow> byte list option" where
  "store dst i v = (if i < length dst then Some (dst[i := v]) else None)"

text \<open>
  \<open>decodeQuantum(dst[off:], src, si)\<close>. After the loop the digits are packed into three
  bytes and stored by the \<open>switch dlen\<close> with its fall-through cases: \<open>dst[2]\<close>, then
  \<open>dst[1]\<close>, then \<open>dst[0]\<close> of the slice \<open>dst[off:]\<close>. The first store of a case is the
  one with the highest index, so a panic leaves \<open>dst\<close> as it was. The result is
  \<open>(nsi, rest, n, err)\<close>.
\<close>

definition decodeQuantum ::
  "byte list \<Rightarrow> nat \<Rightarrow> nat \<Rightarrow> string \<Rightarrow> byte list \<times> (nat \<times> string \<times> nat \<times> error option) may_panic" where
  "decodeQuantum dst off si rest =
     (case quantum_loop [0, 0, 0, 0] 0 si rest of
        QReturn si' rest' err \<Rightarrow> (dst, Return (si', rest', 0, err))
      | QBreak dbuf dlen si' rest' err \<Rightarrow>
          (let val = push_bit 18 (ucast (dbuf ! 0) :: uint) OR push_bit 12 (ucast (dbuf ! 1)) OR
                     push_bit 6 (ucast (dbuf ! 2)) OR ucast (dbuf ! 3);
               d2 = (ucast val :: byte);
               d1 = (ucast (drop_bit 8 val) :: byte);
               d0 = (ucast (drop_bit 16 val) :: byte);
               written =
                 (if dlen = 4 then
                    Option.bind (store dst (off + 2) d2) (\<lambda>dst.
                    Option.bind (store dst (off + 1) d1) (\<lambda>dst. store dst off d0))
                  else if dlen = 3 then
                    Option.bind (store dst (off + 1) d1) (\<lambda>dst. store dst off d0)
                  else if dlen = 2 then store dst off d0
                  else Some dst)
           in case written of
                None \<Rightarrow> (dst, Panic)
              | Some dst' \<Rightarrow> (dst', Return (si', rest', dlen - 1, err))))"

text \<open>Every call of \<open>decodeQuantum\<close> on unread input consumes some of it.\<close>

fun qloop_rest :: "qloop \<Rightarrow> string" where
  "qloop_rest (QReturn si rest err) = rest"
| "qloop_rest (QBreak dbuf dlen si rest err) = rest"

lemma skip_newlines_length:
  "length (snd (skip_newlines si rest)) \<le> length rest"
  by (induction si rest rule: skip_newlines.induct) auto

lemma quantum_pad_end_length:
  "length (qloop_rest (quantum_pad_end dbuf j si rest)) \<le> length rest"
  using skip_newlines_length[of si rest]
  by (auto simp: quantum_pad_end_def split: prod.splits)

lemma quantum_second_pad_length:
  "length (qloop_rest (case skip_newlines si rest of
       (si', []) \<Rightarrow> QReturn si' [] (Some (CorruptInputError (int si')))
     | (si', c' # rest') \<Rightarrow>
         if c' \<noteq> padChar then QReturn si' (c' # rest') (Some (CorruptInputError (int si' - 1)))
         else quantum_pad_end dbuf j (si' + 1) rest')) \<le> length rest"
proof (cases "skip_newlines si rest")
  case (Pair si' r)
  have r: "length r \<le> length rest"
    using skip_newlines_length[of si rest] Pair by simp
  show ?thesis
  proof (cases r)
    case Nil
    then show ?thesis using Pair by simp
  next
    case (Cons c' rest')
    have "length (qloop_rest (quantum_pad_end dbuf j (si' + 1) rest')) \<le> length rest'"
      by (rule quantum_pad_end_length)
    then show ?thesis using Pair Cons r by simp
  qed
qed

lemma quantum_loop_length_le:
  "length (qloop_rest (quantum_loop dbuf j si rest)) \<le> length rest"
proof (induction dbuf j si rest rule: quantum_loop.induct)
  case (1 dbuf j si)
  show ?case by simp
next
  case (2 dbuf j si c rest)
  have pad: "length (qloop_rest (quantum_pad_end dbuf j (si + 1) rest)) \<le> Suc (length rest)"
    using quantum_pad_end_length[of dbuf j "si + 1" rest] by simp
  have two: "length (qloop_rest (case skip_newlines (si + 1) rest of
       (si', []) \<Rightarrow> QReturn si' [] (Some (CorruptInputError (int si')))
     | (si', c' # rest') \<Rightarrow>
         if c' \<noteq> padChar then QReturn si' (c' # rest') (Some (CorruptInputError (int si' - 1)))
         else quantum_pad_end dbuf j (si' + 1) rest')) \<le> Suc (length rest)"
    using quantum_second_pad_length[where si = "si + 1" and rest = rest and dbuf = dbuf and j = j]
    by simp
  have a: "\<not> 4 \<le> j \<Longrightarrow> decodeMap c \<noteq> 0xFF \<Longrightarrow>
      length (qloop_rest (quantum_loop (dbuf[j := decodeMap c]) (j + 1) (si + 1) rest))
        \<le> Suc (length rest)"
    using 2(1) by (simp add: le_SucI)
  have b: "\<not> 4 \<le> j \<Longrightarrow> \<not> decodeMap c \<noteq> 0xFF \<Longrightarrow> is_newline c \<Longrightarrow>
      length (qloop_rest (quantum_loop dbuf j (si + 1) rest)) \<le> Suc (length rest)"
    using 2(2) by (simp add: le_SucI)
  show ?case using a b pad two by simp
qed

lemma quantum_loop_length_less:
  assumes "j < 4" "rest \<noteq> []"
  shows "length (qloop_rest (quantum_loop dbuf j si rest)) < length rest"
proof -
  obtain c r where rest: "rest = c # r" using assms(2) by (cases rest) auto
  have a: "length (qloop_rest (quantum_loop (dbuf[j := decodeMap c]) (j + 1) (si + 1) r)) \<le> length r"
    by (rule quantum_loop_length_le)
  have b: "length (qloop_rest (quantum_loop dbuf j (si + 1) r)) \<le> length r"
    by (rule quantum_loop_length_le)
  have pad: "length (qloop_rest (quantum_pad_end dbuf j (si + 1) r)) \<le> length r"
    by (rule quantum_pad_end_length)
  have two: "length (qloop_rest (case skip_newlines (si + 1) r of
       (si', []) \<Rightarrow> QReturn si' [] (Some (CorruptInputError (int si')))
     | (si', c' # rest') \<Rightarrow>
         if c' \<noteq> padChar then QReturn si' (c' # rest') (Some (CorruptInputError (int si' - 1)))
         else quantum_pad_end dbuf j (si' + 1) rest')) \<le> length r"
    by (rule quantum_second_pad_length)
  show ?thesis using assms(1) a b pad two unfolding rest by simp
qed

lemma decodeQuantum_length:
  assumes "decodeQuantum dst off si rest = (dst', Return (si', rest', ninc, err))" "rest \<noteq> []"
  shows "length rest' < length rest"
proof -
  have "rest' = qloop_rest (quantum_loop [0, 0, 0, 0] 0 si rest)"
    using assms(1) by (auto simp: decodeQuantum_def Let_def split: qloop.splits option.splits)
  then show ?thesis using quantum_loop_length_less[of 0 rest "[0, 0, 0, 0]" si] assms(2) by simp
qed

text \<open>
  The three loops of \<open>Decode\<close>, in the order of the source: eight characters at a time
  while eight bytes of \<open>dst\<close> are free, four at a time while four are free, then quantum
  by quantum with no check of the space left. A quantum's error ends the decoding with
  the bytes written so far counted.
\<close>

function decode_tail ::
  "byte list \<Rightarrow> nat \<Rightarrow> nat \<Rightarrow> string \<Rightarrow> byte list \<times> (nat \<times> error option) may_panic" where
  "decode_tail dst n si rest =
     (if rest = [] then (dst, Return (n, None))
      else case decodeQuantum dst n si rest of
             (dst', Panic) \<Rightarrow> (dst', Panic)
           | (dst', Return (si', rest', ninc, err)) \<Rightarrow>
               if err \<noteq> None then (dst', Return (n + ninc, err))
               else decode_tail dst' (n + ninc) si' rest')"
  by pat_completeness auto
termination
  by (relation "measure (\<lambda>(dst, n, si, rest). length rest)")
     (auto dest: decodeQuantum_length[OF sym])

function decode_32 ::
  "byte list \<Rightarrow> nat \<Rightarrow> nat \<Rightarrow> string \<Rightarrow> byte list \<times> (nat \<times> error option) may_panic" where
  "decode_32 dst n si rest =
     (if 4 \<le> length rest \<and> n + 4 \<le> length dst then
        (case assemble32 (decodeMap (rest ! 0)) (decodeMap (rest ! 1))
                         (decodeMap (rest ! 2)) (decodeMap (rest ! 3)) of
           Some dn \<Rightarrow> decode_32 (PutUint32 dst n dn) (n + 3) (si + 4) (drop 4 rest)
         | None \<Rightarrow>
             (case decodeQuantum dst n si rest of
                (dst', Panic) \<Rightarrow> (dst', Panic)
              | (dst', Return (si', rest', ninc, err)) \<Rightarrow>
                  if err \<noteq> None then (dst', Return (n + ninc, err))
                  else decode_32 dst' (n + ninc) si' rest'))
      else decode_tail dst n si rest)"
  by pat_completeness auto
termination
  by (relation "measure (\<lambda>(dst, n, si, rest). length rest)")
     (auto dest: decodeQuantum_length[OF sym])

function decode_64 ::
  "byte list \<Rightarrow> nat \<Rightarrow> nat \<Rightarrow> string \<Rightarrow> byte list \<times> (nat \<times> error option) may_panic" where
  "decode_64 dst n si rest =
     (if 8 \<le> length rest \<and> n + 8 \<le> length dst then
        (case assemble64 (decodeMap (rest ! 0)) (decodeMap (rest ! 1))
                         (decodeMap (rest ! 2)) (decodeMap (rest ! 3))
                         (decodeMap (rest ! 4)) (decodeMap (rest ! 5))
                         (decodeMap (rest ! 6)) (decodeMap (rest ! 7)) of
           Some dn \<Rightarrow> decode_64 (PutUint64 dst n dn) (n + 6) (si + 8) (drop 8 rest)
         | None \<Rightarrow>
             (case decodeQuantum dst n si rest of
                (dst', Panic) \<Rightarrow> (dst', Panic)
              | (dst', Return (si', rest', ninc, err)) \<Rightarrow>
                  if err \<noteq> None then (dst', Return (n + ninc, err))
                  else decode_64 dst' (n + ninc) si' rest'))
      else decode_32 dst n si rest)"
  by pat_completeness auto
termination
  by (relation "measure (\<lambda>(dst, n, si, rest). length rest)")
     (auto dest: decodeQuantum_length[OF sym])

declare decode_tail.simps [simp del] decode_32.simps [simp del] decode_64.simps [simp del]

text \<open>\<open>Decode(dst, src)\<close>: the new contents of \<open>dst\<close>, and \<open>(n, err)\<close> or a panic.\<close>

definition Decode :: "byte list \<Rightarrow> string \<Rightarrow> byte list \<times> (nat \<times> error option) may_panic" where
  "Decode dst src = decode_64 dst 0 0 src"

section \<open>Token\<close>

text \<open>
  \<open>type Token [16]byte\<close>: a list of bytes, of length 16 wherever a theorem needs it.
  \<open>var t Token\<close> is the zero token.
\<close>

type_synonym Token = "byte list"

definition zeroToken :: Token where
  "zeroToken = replicate 16 0"

definition Token_String :: "Token \<Rightarrow> string" where
  "Token_String t = Encode t"

definition MarshalText :: "Token \<Rightarrow> string \<times> error option" where
  "MarshalText t = (Token_String t, None)"

text \<open>
  \<open>UnmarshalText\<close> has a pointer receiver and decodes straight into it: the result is the
  receiver after the call and what the call returned. The destination \<open>t[:]\<close> has 16
  bytes whatever the length of \<open>text\<close>.
\<close>

definition UnmarshalText :: "Token \<Rightarrow> string \<Rightarrow> Token \<times> error option may_panic" where
  "UnmarshalText t text =
     (case Decode t text of
        (t', Panic) \<Rightarrow> (t', Panic)
      | (t', Return (n, Some err)) \<Rightarrow> (t', Return (Some (Wrapped ''token: base64 decode'' err)))
      | (t', Return (n, None)) \<Rightarrow>
          if n \<noteq> 16
          then (t', Return (Some (Errorf (''token: expected 16 bytes, was '' @ itoa (int (length text))))))
          else (t', Return None))"


section \<open>The store\<close>

text \<open>
  The two tables of \<open>Initialize\<close>, as the lists of their rows in insertion order:
  \<open>USER (ID primary key, EMAIL unique, BCRYPT, VALID default false)\<close> and
  \<open>TOKEN (UID, TOKEN primary key, START_TIME, END_TIME)\<close>. The times of a token row are
  the integers the code stores: milliseconds since the Unix epoch. The foreign key of
  \<open>TOKEN.UID\<close> is declared but SQLite does not enforce it unless asked to, and the
  repository's own tests insert tokens for a user that does not exist, so an insert does
  not check it.
\<close>

record user_row =
  user_id :: string
  user_email :: string
  user_bcrypt :: "byte list"
  user_valid :: bool

record token_row =
  tok_uid :: string
  tok_token :: Token
  tok_start :: int
  tok_end :: int

record db =
  users :: "user_row list"
  tokens :: "token_row list"

text \<open>
  What the schema guarantees of every state: the primary keys and the unique column hold
  no value twice.
\<close>

definition db_ok :: "db \<Rightarrow> bool" where
  "db_ok d = (distinct (map user_id (users d)) \<and> distinct (map user_email (users d)) \<and>
              distinct (map tok_token (tokens d)))"

text \<open>
  A \<open>time.Time\<close> is its number of nanoseconds since the Unix epoch (the range limits of
  \<open>int64\<close> and the monotonic reading are left out); a \<open>time.Duration\<close> is a number of
  nanoseconds. \<open>UnixMilli\<close> rounds down.
\<close>

type_synonym Time = int

definition UnixMilli :: "Time \<Rightarrow> int" where
  "UnixMilli t = t div 1000000"

definition Second :: int where
  "Second = 1000000000"

definition Hour :: int where
  "Hour = 3600 * Second"

text \<open>
  The collaborators, which the code reaches through libraries: the clock (\<open>time.Now\<close> is
  read twice by \<open>DBAuthenticator.Authenticate\<close>, and once by \<open>Validate\<close>), the random
  source (the bytes \<open>rand.Read\<close> leaves in the token and its error), \<open>bcrypt\<close>,
  \<open>mail.ParseAddress\<close> (only its error is used), and the failures of the database
  connection itself, one possible failure for each place where the code talks to it.
\<close>

datatype store_op =
    OpBegin | OpCommit | OpAuthenticate | OpLookupByEmail | OpInsertToken | OpLookup
  | OpReap | OpInsertUser

record env =
  now1 :: Time
  now2 :: Time
  rand_Read :: "Token \<times> error option"
  bcrypt_CompareHashAndPassword :: "byte list \<Rightarrow> string \<Rightarrow> error option"
  bcrypt_GenerateFromPassword :: "string \<Rightarrow> byte list \<times> error option"
  mail_ParseAddress :: "string \<Rightarrow> error option"
  store_fault :: "store_op \<Rightarrow> error option"

text \<open>
  \<open>db.QueryRowContext(...)\<close> followed by \<open>row.Scan(&v)\<close>, given the column of the first
  row the query selects, if there is one: the error of the connection, \<open>sql.ErrNoRows\<close>
  when there is no row, or the value scanned.
\<close>

definition QueryRow_Scan :: "env \<Rightarrow> store_op \<Rightarrow> 'a option \<Rightarrow> error + 'a" where
  "QueryRow_Scan e op row =
     (case store_fault e op of
        Some err \<Rightarrow> Inl err
      | None \<Rightarrow> (case row of None \<Rightarrow> Inl ErrNoRows | Some v \<Rightarrow> Inr v))"


text \<open>
  \<open>GenerateToken\<close>: the token is read from the random source and inserted with the
  window in milliseconds. The insert fails when the connection fails or when the token,
  the primary key, is already there.
\<close>

definition GenerateToken :: "env \<Rightarrow> db \<Rightarrow> string \<Rightarrow> Time \<Rightarrow> Time \<Rightarrow> db \<times> Token \<times> error option" where
  "GenerateToken e d uid start endt =
     (case rand_Read e of
        (t, Some err) \<Rightarrow> (d, t, Some (Wrapped ''read random'' err))
      | (t, None) \<Rightarrow>
          (case store_fault e OpInsertToken of
             Some err \<Rightarrow> (d, t, Some (Wrapped ''insert'' err))
           | None \<Rightarrow>
               if t \<in> tok_token ` set (tokens d)
               then (d, t, Some (Wrapped ''insert'' (External ''UNIQUE constraint failed: TOKEN.TOKEN'')))
               else (d\<lparr>tokens := tokens d @
                        [\<lparr>tok_uid = uid, tok_token = t, tok_start = UnixMilli start,
                          tok_end = UnixMilli endt\<rparr>]\<rparr>, t, None)))"

text \<open>
  \<open>LookupByEmail\<close>: \<open>SELECT ID FROM USER WHERE EMAIL=?\<close>; \<open>Scan\<close> of no row is
  \<open>sql.ErrNoRows\<close>, reported as \<open>errBadCredentials\<close>.
\<close>

definition LookupByEmail :: "env \<Rightarrow> db \<Rightarrow> string \<Rightarrow> string \<times> error option" where
  "LookupByEmail e d email =
     (case QueryRow_Scan e OpLookupByEmail
             (map_option user_id (find (\<lambda>u. user_email u = email) (users d))) of
        Inl err \<Rightarrow>
          if errors_Is err ErrNoRows then ('''', Some errBadCredentials)
          else ('''', Some (Wrapped ''parse uid'' err))
      | Inr uid \<Rightarrow> (uid, None))"


text \<open>
  \<open>RegisterUser\<close>: the address must parse, the password is hashed, and the row is
  inserted; the insert fails when the connection fails or when the id or the email is
  already there.
\<close>

definition RegisterUser :: "env \<Rightarrow> db \<Rightarrow> string \<Rightarrow> string \<Rightarrow> string \<Rightarrow> db \<times> error option" where
  "RegisterUser e d uid email password =
     (case mail_ParseAddress e email of
        Some err \<Rightarrow>
          (d, Some (Wrapped (''parsing email address '' @ [CHR 0x27] @ email @ [CHR 0x27]) err))
      | None \<Rightarrow>
          (case bcrypt_GenerateFromPassword e password of
             (hash, Some err) \<Rightarrow> (d, Some (Wrapped ''hash pw'' err))
           | (hash, None) \<Rightarrow>
               (case store_fault e OpInsertUser of
                  Some err \<Rightarrow> (d, Some (Wrapped ''insert user'' err))
                | None \<Rightarrow>
                    if uid \<in> user_id ` set (users d)
                    then (d, Some (Wrapped ''insert user'' (External ''UNIQUE constraint failed: USER.ID'')))
                    else if email \<in> user_email ` set (users d)
                    then (d, Some (Wrapped ''insert user'' (External ''UNIQUE constraint failed: USER.EMAIL'')))
                    else (d\<lparr>users := users d @
                             [\<lparr>user_id = uid, user_email = email, user_bcrypt = hash,
                               user_valid = False\<rparr>]\<rparr>, None))))"

text \<open>
  \<open>Authenticate\<close>, the credential check:
  \<open>SELECT BCRYPT FROM USER WHERE ID = ? OR EMAIL = ?\<close>, the first row found. No row and
  a hash that does not match the password both return \<open>errBadCredentials\<close>.
\<close>

definition Authenticate :: "env \<Rightarrow> db \<Rightarrow> string \<Rightarrow> string \<Rightarrow> error option" where
  "Authenticate e d idOrEmail password =
     (case QueryRow_Scan e OpAuthenticate
             (map_option user_bcrypt
                (find (\<lambda>u. user_id u = idOrEmail \<or> user_email u = idOrEmail) (users d))) of
        Inl err \<Rightarrow>
          if errors_Is err ErrNoRows then Some errBadCredentials
          else Some (Wrapped ''parse bcrypt'' err)
      | Inr hash \<Rightarrow>
          (case bcrypt_CompareHashAndPassword e hash password of
             None \<Rightarrow> None
           | Some err \<Rightarrow>
               if errors_Is err ErrMismatchedHashAndPassword then Some errBadCredentials
               else Some (Wrapped ''compare password to hash'' err)))"

section \<open>DBAuthenticator\<close>

text \<open>
  A transaction: the working copy of the tables that the statements run against, and
  whether it has ended. \<open>Commit\<close> publishes the working copy; \<open>Rollback\<close> drops it; on a
  transaction that has ended both return \<open>sql.ErrTxDone\<close> and change nothing. A failed
  commit publishes nothing.
\<close>

record tx =
  tx_conn :: db
  tx_done :: bool

definition BeginTx :: "env \<Rightarrow> db \<Rightarrow> tx \<times> error option" where
  "BeginTx e d =
     (case store_fault e OpBegin of
        Some err \<Rightarrow> (\<lparr>tx_conn = d, tx_done = True\<rparr>, Some err)
      | None \<Rightarrow> (\<lparr>tx_conn = d, tx_done = False\<rparr>, None))"

definition Commit :: "env \<Rightarrow> db \<Rightarrow> tx \<Rightarrow> db \<times> tx \<times> error option" where
  "Commit e d t =
     (if tx_done t then (d, t, Some ErrTxDone)
      else case store_fault e OpCommit of
             Some err \<Rightarrow> (d, t\<lparr>tx_done := True\<rparr>, Some err)
           | None \<Rightarrow> (tx_conn t, t\<lparr>tx_done := True\<rparr>, None))"

definition Rollback :: "db \<Rightarrow> tx \<Rightarrow> db \<times> tx \<times> error option" where
  "Rollback d t =
     (if tx_done t then (d, t, Some ErrTxDone)
      else (d, t\<lparr>tx_done := True\<rparr>, None))"


definition DBAuthenticator_Register :: "env \<Rightarrow> db \<Rightarrow> string \<Rightarrow> string \<Rightarrow> db \<times> error option" where
  "DBAuthenticator_Register e d email password = RegisterUser e d email email password"

text \<open>
  \<open>DBAuthenticator.Authenticate\<close>. The deferred \<open>tx.Rollback()\<close> runs at every return
  after the transaction was opened; it is written out at each of them.
\<close>

definition DBAuthenticator_Authenticate ::
  "env \<Rightarrow> db \<Rightarrow> string \<Rightarrow> string \<Rightarrow> db \<times> Token \<times> Time \<times> error option" where
  "DBAuthenticator_Authenticate e d email password =
     (let expiration = now1 e + 24 * Hour;
          t = zeroToken
      in case BeginTx e d of
           (txn, Some err) \<Rightarrow> (d, t, expiration, Some (Wrapped ''open transaction'' err))
         | (txn, None) \<Rightarrow>
             (case Authenticate e (tx_conn txn) email password of
                Some err \<Rightarrow> (fst (Rollback d txn), t, expiration, Some (Wrapped ''authorization'' err))
              | None \<Rightarrow>
                  (case LookupByEmail e (tx_conn txn) email of
                     (uid, Some err) \<Rightarrow>
                       (fst (Rollback d txn), t, expiration, Some (Wrapped ''lookup email'' err))
                   | (uid, None) \<Rightarrow>
                       (case GenerateToken e (tx_conn txn) uid (now2 e - Second) expiration of
                          (conn, t, Some err) \<Rightarrow>
                            (fst (Rollback d (txn\<lparr>tx_conn := conn\<rparr>)), t, expiration,
                             Some (Wrapped ''generate token'' err))
                        | (conn, t, None) \<Rightarrow>
                            (case Commit e d (txn\<lparr>tx_conn := conn\<rparr>) of
                               (d', txn', Some err) \<Rightarrow>
                                 (fst (Rollback d' txn'), t, expiration, Some (Wrapped ''commit'' err))
                             | (d', txn', None) \<Rightarrow>
                                 (fst (Rollback d' txn'), t, expiration, None))))))"


section \<open>The HTTP handlers\<close>

text \<open>
  What the handlers read of a \<open>*http.Request\<close>: the method, \<open>r.URL.String()\<close>,
  \<open>r.URL.RawQuery\<close>, the parsed query \<open>r.URL.Query()\<close>, the cookies, the result of
  \<open>r.ParseForm()\<close> and the posted form. What they write to the \<open>ResponseWriter\<close>: the
  status, the headers and the body. The two HTML forms are kept as the page and the query
  string put into it; their markup is not part of the core.
\<close>

record request =
  Method :: string
  URL_String :: string
  URL_RawQuery :: string
  URL_Query :: "(string \<times> string) list"
  Cookies :: "(string \<times> string) list"
  ParseForm :: "error option"
  PostForm :: "(string \<times> string) list"

datatype body = NoBody | Text string | LoginPage string | SignupPage string | FoundNote string

record response =
  Status :: nat
  Header :: "(string \<times> string) list"
  Body :: body

definition StatusFound :: nat where "StatusFound = 302"
definition StatusBadRequest :: nat where "StatusBadRequest = 400"
definition StatusUnauthorized :: nat where "StatusUnauthorized = 401"
definition StatusInternalServerError :: nat where "StatusInternalServerError = 500"

text \<open>\<open>Values.Get\<close> (behind \<open>Query().Get\<close> and \<open>PostFormValue\<close>): the first value, or the
  empty string.\<close>

definition Get :: "(string \<times> string) list \<Rightarrow> string \<Rightarrow> string" where
  "Get vs key = (case map_of vs key of None \<Rightarrow> '''' | Some v \<Rightarrow> v)"

definition PostFormValue :: "request \<Rightarrow> string \<Rightarrow> string" where
  "PostFormValue r key = Get (PostForm r) key"





text \<open>
  \<open>http.Error\<close> and \<open>http.Redirect\<close>, given the headers set so far. \<open>Redirect\<close> sets
  \<open>Location\<close> and the status and, for a \<open>GET\<close>, writes a short note linking to the
  target. The target is taken as it is given (the library makes a relative target
  absolute against the request path first; the login URL of \<open>main\<close> is absolute).
\<close>

definition http_Error :: "(string \<times> string) list \<Rightarrow> string \<Rightarrow> nat \<Rightarrow> response" where
  "http_Error hdr msg code =
     \<lparr>Status = code,
      Header = hdr @ [(''Content-Type'', ''text/plain; charset=utf-8''),
                      (''X-Content-Type-Options'', ''nosniff'')],
      Body = Text (msg @ [CHR 0x0A])\<rparr>"

definition http_Redirect :: "(string \<times> string) list \<Rightarrow> request \<Rightarrow> string \<Rightarrow> nat \<Rightarrow> response" where
  "http_Redirect hdr r url code =
     \<lparr>Status = code,
      Header = hdr @ [(''Location'', url)] @
               (if Method r = ''GET'' \<or> Method r = ''HEAD''
                then [(''Content-Type'', ''text/html; charset=utf-8'')] else []),
      Body = (if Method r = ''GET'' then FoundNote url else NoBody)\<rparr>"



text \<open>
  \<open>AuthServer\<close> embeds the interface \<open>Authenticator\<close>: two methods over whatever state
  \<open>'s\<close> the implementation keeps. \<open>main\<close> uses \<open>DBAuthenticator\<close>, whose state is the
  database.
\<close>

record 's Authenticator =
  auth_Authenticate :: "'s \<Rightarrow> string \<Rightarrow> string \<Rightarrow> 's \<times> Token \<times> Time \<times> error option"
  auth_Register :: "'s \<Rightarrow> string \<Rightarrow> string \<Rightarrow> 's \<times> error option"

definition DBAuthenticator :: "env \<Rightarrow> db Authenticator" where
  "DBAuthenticator e =
     \<lparr>auth_Authenticate = DBAuthenticator_Authenticate e,
      auth_Register = DBAuthenticator_Register e\<rparr>"

text \<open>
  \<open>loginPageHandler\<close>. \<open>RFC3339\<close> stands for \<open>expires.Format(time.RFC3339)\<close>, which is
  the library's. The result is the state of the authenticator afterwards and the
  response.
\<close>

definition loginPageHandler ::
  "(Time \<Rightarrow> string) \<Rightarrow> 's Authenticator \<Rightarrow> 's \<Rightarrow> request \<Rightarrow> 's \<times> response" where
  "loginPageHandler RFC3339 a s r =
     (if Method r = ''GET'' then
        (s, \<lparr>Status = 200, Header = [], Body = LoginPage (URL_RawQuery r)\<rparr>)
      else if Method r \<noteq> ''POST'' then
        (s, http_Error [] (''invalid method: '' @ Method r) StatusBadRequest)
      else case ParseForm r of
             Some err \<Rightarrow> (s, http_Error [] (''parse form: '' @ Error err) StatusBadRequest)
           | None \<Rightarrow>
               (let email = PostFormValue r ''email'';
                    password = PostFormValue r ''password''
                in case auth_Authenticate a s email password of
                     (s', t, expires, Some err) \<Rightarrow>
                       if errors_Is err errBadCredentials then
                         (s', http_Error [] (''authenticate: '' @ Error errBadCredentials)
                                StatusUnauthorized)
                       else
                         (s', http_Error [] (''authenticate: '' @ Error err)
                                StatusInternalServerError)
                   | (s', t, expires, None) \<Rightarrow>
                       (let hdr = [(''Set-Cookie'', ''auth_token='' @ Token_String t @
                                      ''; Expires='' @ RFC3339 expires @ ''; Secure; Path=/'')];
                            redirect = Get (URL_Query r) ''redirect'';
                            redirect = (if redirect = '''' then ''/'' else redirect)
                        in (s', http_Redirect hdr r redirect StatusFound))))"

text \<open>
  \<open>signupPageHandler\<close>: every error of \<open>Register\<close> is answered with status 400; after a
  successful registration the request is handed to \<open>loginPageHandler\<close>.
\<close>

definition signupPageHandler ::
  "(Time \<Rightarrow> string) \<Rightarrow> 's Authenticator \<Rightarrow> 's \<Rightarrow> request \<Rightarrow> 's \<times> response" where
  "signupPageHandler RFC3339 a s r =
     (if Method r = ''GET'' then
        (s, \<lparr>Status = 200, Header = [], Body = SignupPage (URL_RawQuery r)\<rparr>)
      else if Method r \<noteq> ''POST'' then
        (s, http_Error [] (''invalid method: '' @ Method r) StatusBadRequest)
      else case ParseForm r of
             Some err \<Rightarrow> (s, http_Error [] (''parse form: '' @ Error err) StatusBadRequest)
           | None \<Rightarrow>
               (let email = PostFormValue r ''email'';
                    password = PostFormValue r ''password''
                in case auth_Register a s email password of
                     (s', Some err) \<Rightarrow>
                       (s', http_Error [] (''create user: '' @ Error err) StatusBadRequest)
                   | (s', None) \<Rightarrow> loginPageHandler RFC3339 a s' r))"

section \<open>A small world to run the code in\<close>

text \<open>
  Concrete collaborators for evaluating the definitions on examples: a clock at one and
  two seconds, a random source that returns the bytes 1 to 16, a stand-in for bcrypt
  whose hash of a password is its bytes and which refuses passwords longer than
  72 bytes as the library does, an address parser that asks for an \<open>@\<close>, and a
  connection that does not fail.
\<close>

definition ex_token :: Token where
  "ex_token = [1, 2, 3, 4, 5, 6, 7, 8, 9, 10, 11, 12, 13, 14, 15, 16]"

definition ex_env :: env where
  "ex_env =
     \<lparr>now1 = 1 * Second, now2 = 2 * Second,
      rand_Read = (ex_token, None),
      bcrypt_CompareHashAndPassword =
        (\<lambda>hash password. if hash = map of_char password then None
                          else Some ErrMismatchedHashAndPassword),
      bcrypt_GenerateFromPassword =
        (\<lambda>password. if 72 < length password
                     then ([], Some (External ''bcrypt: password length exceeds 72 bytes''))
                     else (map of_char password, None)),
      mail_ParseAddress =
        (\<lambda>email. if CHR ''@'' \<in> set email then None
                  else Some (External ''mail: missing @ in addr-spec'')),
      store_fault = (\<lambda>_. None)\<rparr>"

definition ex_db :: db where
  "ex_db =
     \<lparr>users = [\<lparr>user_id = ''hunter'', user_email = ''hunter@hherman.com'',
                user_bcrypt = map of_char ''test123'', user_valid = False\<rparr>],
      tokens = []\<rparr>"

definition ex_request :: request where
  "ex_request =
     \<lparr>Method = ''POST'', URL_String = ''/signup'', URL_RawQuery = '''', URL_Query = [],
      Cookies = [], ParseForm = None,
      PostForm = [(''email'', ''a@x.com''), (''password'', ''pw1'')]\<rparr>"

definition ex_time_format :: "Time \<Rightarrow> string" where
  "ex_time_format t = itoa t"




definition ex_long_password :: request where
  "ex_long_password =
     ex_request\<lparr>PostForm := [(''email'', ''a@x.com''), (''password'', replicate 73 CHR ''a'')]\<rparr>"

definition ex_broken_store :: env where
  "ex_broken_store =
     ex_env\<lparr>store_fault := (\<lambda>op. if op = OpInsertUser then Some (External ''disk I/O error'')
                                 else None)\<rparr>"

definition ex_broken_commit :: env where
  "ex_broken_commit =
     ex_env\<lparr>store_fault := (\<lambda>op. if op = OpCommit then Some (External ''disk I/O error'')
                                 else None)\<rparr>"

definition ex_login :: request where
  "ex_login =
     ex_request\<lparr>URL_String := ''/login'',
                PostForm := [(''email'', ''hunter@hherman.com''), (''password'', ''test123'')]\<rparr>"


section \<open>Predicates used in the proofs\<close>

text \<open>
  \<open>qloop_ok j si total q\<close>: what is known of the result \<open>q\<close> of the loop of a quantum
  entered at position \<open>si\<close> with \<open>j\<close> digits read, on an input of \<open>total\<close> characters:
  positions and unread input add up, a quantum that stores bytes has read at least the
  \<open>4 - j\<close> characters it still needed, and one that ends without error before a full
  quantum has read the whole input.
\<close>

fun qloop_ok :: "nat \<Rightarrow> nat \<Rightarrow> nat \<Rightarrow> qloop \<Rightarrow> bool" where
  "qloop_ok j si tot (QReturn si' rest' err) =
     (si' + length rest' = tot \<and> (err = None \<longrightarrow> rest' = []))"
| "qloop_ok j si tot (QBreak dbuf dlen si' rest' err) =
     (si' + length rest' = tot \<and> 2 \<le> dlen \<and> dlen \<le> 4 \<and> si + (4 - j) \<le> si' \<and>
      (dlen < 4 \<and> err = None \<longrightarrow> rest' = []))"

text \<open>
  The state of the loops of \<open>Decode\<close> on a text of fewer than 24 characters and a
  destination of 16 bytes: \<open>n\<close> bytes written, \<open>si\<close> characters read, and some number
  \<open>k\<close> of quanta, each of at least four characters, that accounts for both. And the
  result it leads to: no panic, and if no error then not 16 bytes.
\<close>

definition short_inv :: "byte list \<Rightarrow> nat \<Rightarrow> nat \<Rightarrow> string \<Rightarrow> bool" where
  "short_inv dst n si rest =
     (length dst = 16 \<and> si + length rest < 24 \<and>
      (\<exists>k. n \<le> 3 * k \<and> 4 * k \<le> si \<and> (n = 3 * k \<or> rest = [])))"

definition short_result :: "byte list \<times> (nat \<times> error option) may_panic \<Rightarrow> bool" where
  "short_result R = (\<exists>dst' m err. R = (dst', Return (m, err)) \<and> (err = None \<longrightarrow> m \<noteq> 16))"


section \<open>The token's text form\<close>

subsection \<open>Digits of the alphabet decode to themselves\<close>

lemma sextet_lt: "unat ((w :: uint) AND 0x3F) < 64"
proof -
  have "w AND 0x3F \<le> 0x3F" by (rule word_and_le1)
  then have "unat (w AND 0x3F) \<le> unat (0x3F :: uint)" by (simp add: word_le_nat_alt)
  then show ?thesis by simp
qed

lemma decodeMap_table: "list_all (\<lambda>k. decodeMap (encodeStd ! k) = of_nat k) [0..<64]"
  by code_simp

lemma decodeMap_encode: "decodeMap (encode (w AND 0x3F)) = ucast (w AND 0x3F)"
proof -
  have "unat (w AND 0x3F) \<in> set [0..<64]" using sextet_lt[of w] by simp
  then have "decodeMap (encodeStd ! unat (w AND 0x3F)) = of_nat (unat (w AND 0x3F))"
    using decodeMap_table unfolding list_all_iff by blast
  then show ?thesis by (simp add: encode_def)
qed

lemma padChar_facts: "decodeMap padChar = 0xFF" "\<not> is_newline padChar"
  by code_simp+

subsection \<open>Bytes, bit by bit\<close>

lemma byte_bit_high: "8 \<le> n \<Longrightarrow> bit (b::byte) n = False"
  using bit_imp_le_length[of b n] by auto

lemma byte_eqI:
  fixes a b :: byte
  assumes "bit a 0 = bit b 0" "bit a 1 = bit b 1" "bit a 2 = bit b 2" "bit a 3 = bit b 3"
          "bit a 4 = bit b 4" "bit a 5 = bit b 5" "bit a 6 = bit b 6" "bit a 7 = bit b 7"
  shows "a = b"
proof (rule bit_word_eqI)
  fix n assume "n < LENGTH(8)"
  then have "n \<in> {0, 1, 2, 3, 4, 5, 6, 7}" by auto
  then show "bit a n = bit b n" using assms by auto
qed

lemma x3F_mask: "(0x3F :: uint) = mask 6"
  by (simp add: mask_eq_exp_minus_1)

lemma top_bit_clear_ne: "bit (a :: byte) 7 = False \<Longrightarrow> a \<noteq> 0xFF"
  by auto

lemma sextet_bit7: "bit (ucast ((w::uint) AND 0x3F) :: byte) 7 = False"
  unfolding x3F_mask by (simp add: bit_simps)

subsection \<open>One step of each loop of \<open>Decode\<close> on encoded bytes\<close>

lemma decode_32_step:
  assumes "n + 4 \<le> length dst"
  shows "decode_32 dst n si (Encode [b0, b1, b2] @ rest) =
         decode_32 (dst[n := b0, n + 1 := b1, n + 2 := b2, n + 3 := 0]) (n + 3) (si + 4) rest"
proof -
  define val where "val = push_bit 16 (ucast b0 :: uint) OR push_bit 8 (ucast b1) OR ucast b2"
  define c0 where "c0 = encode (drop_bit 18 val AND 0x3F)"
  define c1 where "c1 = encode (drop_bit 12 val AND 0x3F)"
  define c2 where "c2 = encode (drop_bit 6 val AND 0x3F)"
  define c3 where "c3 = encode (val AND 0x3F)"
  define dn :: "32 word" where
    "dn = push_bit 26 (ucast (decodeMap c0)) OR push_bit 20 (ucast (decodeMap c1)) OR
          push_bit 14 (ucast (decodeMap c2)) OR push_bit 8 (ucast (decodeMap c3))"
  have enc: "Encode [b0, b1, b2] = [c0, c1, c2, c3]"
    by (simp add: Let_def c0_def c1_def c2_def c3_def val_def)
  have dm: "decodeMap c0 = ucast (drop_bit 18 val AND 0x3F)"
           "decodeMap c1 = ucast (drop_bit 12 val AND 0x3F)"
           "decodeMap c2 = ucast (drop_bit 6 val AND 0x3F)"
           "decodeMap c3 = ucast (val AND 0x3F)"
    by (simp_all add: c0_def c1_def c2_def c3_def decodeMap_encode)
  have ne: "decodeMap c0 OR decodeMap c1 OR decodeMap c2 OR decodeMap c3 \<noteq> 0xFF"
    unfolding dm
    by (rule top_bit_clear_ne) (simp add: bit_simps sextet_bit7)
  have asm: "assemble32 (decodeMap c0) (decodeMap c1) (decodeMap c2) (decodeMap c3) = Some dn"
    using ne by (simp add: assemble32_def dn_def)
  have bytes: "ucast (drop_bit 24 dn) = b0" "ucast (drop_bit 16 dn) = b1"
              "ucast (drop_bit 8 dn) = b2" "(ucast dn :: byte) = 0"
    unfolding dn_def dm val_def x3F_mask
    by (rule byte_eqI; simp add: bit_simps byte_bit_high)+
  have put: "PutUint32 dst n dn = dst[n := b0, n + 1 := b1, n + 2 := b2, n + 3 := 0]"
    by (simp add: PutUint32_def bytes)
  show ?thesis
    unfolding enc
    by (subst decode_32.simps) (simp add: assms asm put)
qed

lemma decode_64_step:
  assumes "n + 8 \<le> length dst"
  shows "decode_64 dst n si (Encode [b0, b1, b2, b3, b4, b5] @ rest) =
         decode_64 (dst[n := b0, n + 1 := b1, n + 2 := b2, n + 3 := b3, n + 4 := b4, n + 5 := b5,
                        n + 6 := 0, n + 7 := 0]) (n + 6) (si + 8) rest"
proof -
  define v where "v = push_bit 16 (ucast b0 :: uint) OR push_bit 8 (ucast b1) OR ucast b2"
  define w where "w = push_bit 16 (ucast b3 :: uint) OR push_bit 8 (ucast b4) OR ucast b5"
  define c0 where "c0 = encode (drop_bit 18 v AND 0x3F)"
  define c1 where "c1 = encode (drop_bit 12 v AND 0x3F)"
  define c2 where "c2 = encode (drop_bit 6 v AND 0x3F)"
  define c3 where "c3 = encode (v AND 0x3F)"
  define c4 where "c4 = encode (drop_bit 18 w AND 0x3F)"
  define c5 where "c5 = encode (drop_bit 12 w AND 0x3F)"
  define c6 where "c6 = encode (drop_bit 6 w AND 0x3F)"
  define c7 where "c7 = encode (w AND 0x3F)"
  define dn :: "64 word" where
    "dn = push_bit 58 (ucast (decodeMap c0)) OR push_bit 52 (ucast (decodeMap c1)) OR
          push_bit 46 (ucast (decodeMap c2)) OR push_bit 40 (ucast (decodeMap c3)) OR
          push_bit 34 (ucast (decodeMap c4)) OR push_bit 28 (ucast (decodeMap c5)) OR
          push_bit 22 (ucast (decodeMap c6)) OR push_bit 16 (ucast (decodeMap c7))"
  have enc: "Encode [b0, b1, b2, b3, b4, b5] = [c0, c1, c2, c3, c4, c5, c6, c7]"
    by (simp add: Let_def c0_def c1_def c2_def c3_def c4_def c5_def c6_def c7_def v_def w_def)
  have dm: "decodeMap c0 = ucast (drop_bit 18 v AND 0x3F)"
           "decodeMap c1 = ucast (drop_bit 12 v AND 0x3F)"
           "decodeMap c2 = ucast (drop_bit 6 v AND 0x3F)"
           "decodeMap c3 = ucast (v AND 0x3F)"
           "decodeMap c4 = ucast (drop_bit 18 w AND 0x3F)"
           "decodeMap c5 = ucast (drop_bit 12 w AND 0x3F)"
           "decodeMap c6 = ucast (drop_bit 6 w AND 0x3F)"
           "decodeMap c7 = ucast (w AND 0x3F)"
    by (simp_all add: c0_def c1_def c2_def c3_def c4_def c5_def c6_def c7_def decodeMap_encode)
  have ne: "decodeMap c0 OR decodeMap c1 OR decodeMap c2 OR decodeMap c3 OR
            decodeMap c4 OR decodeMap c5 OR decodeMap c6 OR decodeMap c7 \<noteq> 0xFF"
    unfolding dm
    by (rule top_bit_clear_ne) (simp add: bit_simps sextet_bit7)
  have asm: "assemble64 (decodeMap c0) (decodeMap c1) (decodeMap c2) (decodeMap c3)
                        (decodeMap c4) (decodeMap c5) (decodeMap c6) (decodeMap c7) = Some dn"
    using ne by (simp add: assemble64_def dn_def)
  have bytes: "ucast (drop_bit 56 dn) = b0" "ucast (drop_bit 48 dn) = b1"
              "ucast (drop_bit 40 dn) = b2" "ucast (drop_bit 32 dn) = b3"
              "ucast (drop_bit 24 dn) = b4" "ucast (drop_bit 16 dn) = b5"
              "(ucast (drop_bit 8 dn) :: byte) = 0" "(ucast dn :: byte) = 0"
    unfolding dn_def dm v_def w_def x3F_mask
    by (rule byte_eqI; simp add: bit_simps byte_bit_high)+
  have put: "PutUint64 dst n dn =
             dst[n := b0, n + 1 := b1, n + 2 := b2, n + 3 := b3, n + 4 := b4, n + 5 := b5,
                 n + 6 := 0, n + 7 := 0]"
    by (simp add: PutUint64_def bytes)
  show ?thesis
    unfolding enc
    by (subst decode_64.simps) (simp add: assms asm put)
qed

lemma decode_64_exit:
  assumes "\<not> (8 \<le> length rest \<and> n + 8 \<le> length dst)"
  shows "decode_64 dst n si rest = decode_32 dst n si rest"
  by (subst decode_64.simps) (simp only: assms if_False)

lemma decode_32_exit:
  assumes "\<not> (4 \<le> length rest \<and> n + 4 \<le> length dst)"
  shows "decode_32 dst n si rest = decode_tail dst n si rest"
  by (subst decode_32.simps) (simp only: assms if_False)

lemma decode_tail_last:
  assumes "n < length dst"
  shows "decode_tail dst n si (Encode [b]) = (dst[n := b], Return (n + 1, None))"
proof -
  define v where "v = push_bit 16 (ucast b :: uint)"
  define c0 where "c0 = encode (drop_bit 18 v AND 0x3F)"
  define c1 where "c1 = encode (drop_bit 12 v AND 0x3F)"
  have enc: "Encode [b] = [c0, c1, padChar, padChar]"
    by (simp add: Let_def c0_def c1_def v_def)
  have dm: "decodeMap c0 = ucast (drop_bit 18 v AND 0x3F)"
           "decodeMap c1 = ucast (drop_bit 12 v AND 0x3F)"
    by (simp_all add: c0_def c1_def decodeMap_encode)
  have ne: "decodeMap c0 \<noteq> 0xFF" "decodeMap c1 \<noteq> 0xFF"
    unfolding dm by (rule top_bit_clear_ne, simp add: sextet_bit7)+
  have loop: "quantum_loop [0, 0, 0, 0] 0 si [c0, c1, padChar, padChar] =
              QBreak [decodeMap c0, decodeMap c1, 0, 0] 2 (si + 4) [] None"
    by (simp add: ne padChar_facts quantum_pad_end_def)
  have byte: "(ucast (drop_bit 16 (push_bit 18 (ucast (decodeMap c0) :: uint) OR
                 push_bit 12 (ucast (decodeMap c1)))) :: byte) = b"
    unfolding dm v_def x3F_mask
    by (rule byte_eqI; simp add: bit_simps byte_bit_high)
  have q: "decodeQuantum dst n si [c0, c1, padChar, padChar] =
           (dst[n := b], Return (si + 4, [], 1, None))"
    unfolding decodeQuantum_def loop using assms byte by (simp add: store_def)
  show ?thesis
    unfolding enc
    by (subst decode_tail.simps, simp add: q, subst decode_tail.simps, simp)
qed

subsection \<open>Sixteen bytes\<close>

lemma length_16_cases:
  assumes "length (xs :: 'a list) = 16"
  obtains x0 x1 x2 x3 x4 x5 x6 x7 x8 x9 x10 x11 x12 x13 x14 x15
  where "xs = [x0, x1, x2, x3, x4, x5, x6, x7, x8, x9, x10, x11, x12, x13, x14, x15]"
proof -
  have idx: "[0..<16] = [0, 1, 2, 3, 4, 5, 6, 7, 8, 9, 10, 11, 12, 13, 14, 15::nat]"
    by code_simp
  have "xs = map ((!) xs) [0..<16]"
    using map_nth[of xs] assms by simp
  then have "xs = [xs ! 0, xs ! 1, xs ! 2, xs ! 3, xs ! 4, xs ! 5, xs ! 6, xs ! 7, xs ! 8, xs ! 9,
                   xs ! 10, xs ! 11, xs ! 12, xs ! 13, xs ! 14, xs ! 15]"
    unfolding idx by simp
  then show ?thesis by (rule that)
qed

lemma Decode_Encode_16:
  assumes "length t = 16" "length dst = 16"
  shows "Decode dst (Encode t) = (t, Return (16, None))"
proof -
  obtain b0 b1 b2 b3 b4 b5 b6 b7 b8 b9 b10 b11 b12 b13 b14 b15
    where t: "t = [b0, b1, b2, b3, b4, b5, b6, b7, b8, b9, b10, b11, b12, b13, b14, b15]"
    using assms(1) by (rule length_16_cases)
  obtain d0 d1 d2 d3 d4 d5 d6 d7 d8 d9 d10 d11 d12 d13 d14 d15
    where dst: "dst = [d0, d1, d2, d3, d4, d5, d6, d7, d8, d9, d10, d11, d12, d13, d14, d15]"
    using assms(2) by (rule length_16_cases)
  have split: "Encode t = Encode [b0, b1, b2, b3, b4, b5] @ Encode [b6, b7, b8, b9, b10, b11] @
                 Encode [b12, b13, b14] @ Encode [b15]"
    unfolding t by (simp add: Let_def)
  have len: "length (Encode [b12, b13, b14] @ Encode [b15]) = 8" "length (Encode [b15]) = 4"
    by (simp_all add: Let_def)
  show ?thesis
    unfolding Decode_def split
    apply (subst decode_64_step, simp add: dst)
    apply (subst decode_64_step, simp add: dst)
    apply (subst decode_64_exit, simp add: dst len)
    apply (subst decode_32_step, simp add: dst)
    apply (subst decode_32_exit, simp add: dst len)
    apply (subst decode_tail_last, simp add: dst)
    apply (simp add: dst t)
    done
qed

lemma length_Encode_16: "length t = 16 \<Longrightarrow> length (Encode t) = 24"
  by (erule length_16_cases) (simp add: Let_def)

text \<open>
  C5. The text encoding of a token round-trips: for every token \<open>t\<close> of 16 bytes,
  \<open>MarshalText\<close> succeeds and returns \<open>t.String()\<close>, 24 characters, and \<open>UnmarshalText\<close>
  of that text, whatever the receiver \<open>r\<close> held before, succeeds and leaves exactly the
  16 bytes of \<open>t\<close> in the receiver.
\<close>

theorem Token_text_round_trip:
  assumes "length t = 16" "length r = 16"
  shows "snd (MarshalText t) = None \<and> fst (MarshalText t) = Token_String t \<and>
         length (Token_String t) = 24 \<and>
         UnmarshalText r (fst (MarshalText t)) = (t, Return None) \<and>
         UnmarshalText r (Token_String t) = (t, Return None)"
  using Decode_Encode_16[OF assms] length_Encode_16[OF assms(1)]
  by (simp add: MarshalText_def Token_String_def UnmarshalText_def)

theorem Token_text_round_trip_witness:
  "length [1, 2, 3, 4, 5, 6, 7, 8, 9, 10, 11, 12, 13, 14, 15, 255 :: byte] = 16 \<and>
   length zeroToken = 16 \<and>
   Token_String [1, 2, 3, 4, 5, 6, 7, 8, 9, 10, 11, 12, 13, 14, 15, 255] = ''AQIDBAUGBwgJCgsMDQ4P/w=='' \<and>
   UnmarshalText zeroToken ''AQIDBAUGBwgJCgsMDQ4P/w=='' =
     ([1, 2, 3, 4, 5, 6, 7, 8, 9, 10, 11, 12, 13, 14, 15, 255], Return None)"
proof -
  have l: "length [1, 2, 3, 4, 5, 6, 7, 8, 9, 10, 11, 12, 13, 14, 15, 255 :: byte] = 16"
          "length zeroToken = 16"
    by (simp_all add: zeroToken_def)
  have s: "Token_String [1, 2, 3, 4, 5, 6, 7, 8, 9, 10, 11, 12, 13, 14, 15, 255] =
           ''AQIDBAUGBwgJCgsMDQ4P/w==''"
    by code_simp
  show ?thesis
    using Token_text_round_trip[OF l] l s by simp
qed


subsection \<open>Texts of fewer than 24 characters\<close>

lemma skip_newlines_position:
  "skip_newlines si rest = (si', rest') \<Longrightarrow> si' + length rest' = si + length rest \<and> si \<le> si'"
  by (induction si rest rule: skip_newlines.induct) (auto split: if_splits)

lemma quantum_pad_end_spec:
  assumes "quantum_pad_end dbuf j si rest = q"
  shows "\<exists>si' rest' err. q = QBreak dbuf j si' rest' err \<and> si' + length rest' = si + length rest \<and>
           si \<le> si' \<and> (err = None \<longrightarrow> rest' = [])"
proof -
  obtain si' rest' where s: "skip_newlines si rest = (si', rest')"
    by (cases "skip_newlines si rest") auto
  show ?thesis
    using assms skip_newlines_position[OF s]
    by (auto simp: quantum_pad_end_def s)
qed

lemma quantum_loop_spec:
  "j \<le> 4 \<Longrightarrow> qloop_ok j si (si + length rest) (quantum_loop dbuf j si rest)"
proof (induction dbuf j si rest rule: quantum_loop.induct)
  case (1 dbuf j si)
  then show ?case by auto
next
  case (2 dbuf j si c rest)
  show ?case
  proof (cases "4 \<le> j")
    case True
    then show ?thesis using 2(3) by simp
  next
    case j: False
    show ?thesis
    proof (cases "decodeMap c \<noteq> 0xFF")
      case True
      have "qloop_ok (j + 1) (si + 1) (si + 1 + length rest)
              (quantum_loop (dbuf[j := decodeMap c]) (j + 1) (si + 1) rest)"
        using 2(1)[OF j True] j by simp
      then show ?thesis using j True
        by (cases "quantum_loop (dbuf[j := decodeMap c]) (j + 1) (si + 1) rest") auto
    next
      case d: False
      show ?thesis
      proof (cases "is_newline c")
        case True
        have "qloop_ok j (si + 1) (si + 1 + length rest) (quantum_loop dbuf j (si + 1) rest)"
          using 2(2)[OF j d True] 2(3) by simp
        then show ?thesis using j d True
          by (cases "quantum_loop dbuf j (si + 1) rest") auto
      next
        case n: False
        show ?thesis
        proof (cases "c \<noteq> padChar \<or> j = 0 \<or> j = 1")
          case True
          then show ?thesis using j d n by auto
        next
          case p: False
          show ?thesis
          proof (cases "j = 2")
            case True
            obtain si' r where s: "skip_newlines (si + 1) rest = (si', r)"
              by (cases "skip_newlines (si + 1) rest") auto
            note pos = skip_newlines_position[OF s]
            show ?thesis
            proof (cases r)
              case Nil
              then show ?thesis using j d n p True s pos by simp
            next
              case (Cons c' rest')
              show ?thesis
              proof (cases "c' \<noteq> padChar")
                case True
                then show ?thesis using j d n p \<open>j = 2\<close> s pos Cons by simp
              next
                case False
                obtain si2 rest2 err where
                  q: "quantum_pad_end dbuf j (si' + 1) rest' = QBreak dbuf j si2 rest2 err"
                     "si2 + length rest2 = si' + 1 + length rest'" "si' + 1 \<le> si2"
                     "err = None \<longrightarrow> rest2 = []"
                  using quantum_pad_end_spec[OF refl, of dbuf j "si' + 1" rest'] by auto
                show ?thesis using j d n p \<open>j = 2\<close> s pos Cons False q by simp
              qed
            qed
          next
            case False
            then have j3: "j = 3" using j p by auto
            obtain si2 rest2 err where
              q: "quantum_pad_end dbuf j (si + 1) rest = QBreak dbuf j si2 rest2 err"
                 "si2 + length rest2 = si + 1 + length rest" "si + 1 \<le> si2"
                 "err = None \<longrightarrow> rest2 = []"
              using quantum_pad_end_spec[OF refl, of dbuf j "si + 1" rest] by auto
            show ?thesis using j d n p j3 q by simp
          qed
        qed
      qed
    qed
  qed
qed

lemma decodeQuantum_spec:
  assumes "decodeQuantum dst n si rest = (dst', r)"
  shows "length dst' = length dst \<and>
         (r = Panic \<longrightarrow> length dst \<le> n + 2 \<and> 4 \<le> length rest) \<and>
         (\<forall>si' rest' ninc err. r = Return (si', rest', ninc, err) \<longrightarrow>
            si' + length rest' = si + length rest \<and> ninc \<le> 3 \<and>
            (0 < ninc \<longrightarrow> si + 4 \<le> si') \<and>
            (err = None \<and> ninc < 3 \<longrightarrow> rest' = []))"
proof (cases "quantum_loop [0, 0, 0, 0] 0 si rest")
  case (QReturn si' rest' err)
  have "qloop_ok 0 si (si + length rest) (QReturn si' rest' err)"
    using quantum_loop_spec[of 0 si rest "[0, 0, 0, 0]"] QReturn by simp
  then show ?thesis
    using assms by (auto simp: decodeQuantum_def QReturn)
next
  case (QBreak dbuf dlen si' rest' err)
  have ok: "qloop_ok 0 si (si + length rest) (QBreak dbuf dlen si' rest' err)"
    using quantum_loop_spec[of 0 si rest "[0, 0, 0, 0]"] QBreak by simp
  then have "dlen = 2 \<or> dlen = 3 \<or> dlen = 4" by auto
  then show ?thesis
  proof (elim disjE)
    assume "dlen = 2"
    then show ?thesis using assms ok
      by (auto simp: decodeQuantum_def QBreak Let_def store_def split: if_splits)
  next
    assume "dlen = 3"
    then show ?thesis using assms ok
      by (auto simp: decodeQuantum_def QBreak Let_def store_def split: if_splits)
  next
    assume "dlen = 4"
    then show ?thesis using assms ok
      by (auto simp: decodeQuantum_def QBreak Let_def store_def split: if_splits)
  qed
qed

lemma quantum_step_short:
  assumes inv: "short_inv dst n si rest" and ne: "rest \<noteq> []"
    and q: "decodeQuantum dst n si rest = (dst', r)"
  shows "\<exists>si' rest' ninc err. r = Return (si', rest', ninc, err) \<and> length rest' < length rest \<and>
           (err = None \<longrightarrow> short_inv dst' (n + ninc) si' rest')"
proof -
  note spec = decodeQuantum_spec[OF q]
  obtain k where k: "n = 3 * k" "4 * k \<le> si"
    using inv ne by (auto simp: short_inv_def)
  have len: "length dst = 16" and pos: "si + length rest < 24"
    using inv by (auto simp: short_inv_def)
  have "r \<noteq> Panic"
  proof
    assume "r = Panic"
    then have "16 \<le> n + 2" "4 \<le> length rest" using spec len by auto
    then have "4 * k < 20" "14 \<le> 3 * k" using pos k by simp_all
    then show False by presburger
  qed
  then obtain si' rest' ninc err where r: "r = Return (si', rest', ninc, err)"
    by (cases r) auto
  have less: "length rest' < length rest"
    using decodeQuantum_length[of dst n si rest dst' si' rest' ninc err] q r ne by simp
  have facts: "si' + length rest' = si + length rest" "ninc \<le> 3" "0 < ninc \<longrightarrow> si + 4 \<le> si'"
    "err = None \<and> ninc < 3 \<longrightarrow> rest' = []"
    using spec r by auto
  have "short_inv dst' (n + ninc) si' rest'" if e: "err = None"
  proof (cases "ninc = 0")
    case True
    have "n + ninc \<le> 3 * k \<and> 4 * k \<le> si' \<and> (n + ninc = 3 * k \<or> rest' = [])"
      using True k facts(1) less by simp
    then show ?thesis
      using facts(1) pos spec len by (auto simp: short_inv_def)
  next
    case False
    have "n + ninc \<le> 3 * (k + 1) \<and> 4 * (k + 1) \<le> si' \<and>
          (n + ninc = 3 * (k + 1) \<or> rest' = [])"
      using False k facts e by auto
    then have "\<exists>k'. n + ninc \<le> 3 * k' \<and> 4 * k' \<le> si' \<and> (n + ninc = 3 * k' \<or> rest' = [])"
      by (rule exI[of _ "k + 1"])
    moreover have "length dst' = 16" "si' + length rest' < 24"
      using spec len facts(1) pos by simp_all
    ultimately show ?thesis
      unfolding short_inv_def by simp
  qed
  then show ?thesis using r less by blast
qed

lemma short_inv_done:
  assumes "short_inv dst n si []"
  shows "n \<noteq> 16"
proof -
  obtain k where k: "n \<le> 3 * k" "4 * k \<le> si" and "si < 24"
    using assms by (auto simp: short_inv_def)
  then have "4 * k < 24" "n \<le> 3 * k" by simp_all
  then show ?thesis by presburger
qed

lemma decode_tail_short:
  "short_inv dst n si rest \<Longrightarrow> short_result (decode_tail dst n si rest)"
proof (induction "length rest" arbitrary: dst n si rest rule: less_induct)
  case less
  show ?case
  proof (cases "rest = []")
    case True
    have "n \<noteq> 16" using less.prems True short_inv_done by simp
    then show ?thesis
      by (subst decode_tail.simps) (simp add: True short_result_def)
  next
    case False
    obtain dst' r where q: "decodeQuantum dst n si rest = (dst', r)"
      by (cases "decodeQuantum dst n si rest") auto
    obtain si' rest' ninc err where
      r: "r = Return (si', rest', ninc, err)" "length rest' < length rest"
         "err = None \<longrightarrow> short_inv dst' (n + ninc) si' rest'"
      using quantum_step_short[OF less.prems False q] by blast
    show ?thesis
    proof (cases err)
      case None
      have "short_result (decode_tail dst' (n + ninc) si' rest')"
        using less.hyps[OF r(2)] r(3) None by simp
      then show ?thesis
        by (subst decode_tail.simps) (simp add: False q r(1) None)
    next
      case (Some e)
      then show ?thesis
        by (subst decode_tail.simps) (simp add: False q r(1) short_result_def)
    qed
  qed
qed

lemma short_inv_fast:
  assumes "short_inv dst n si rest" "c \<le> length rest" "0 < c" "length dst' = length dst"
    and "c = 4 \<and> m = 3 \<or> c = 8 \<and> m = 6"
  shows "short_inv dst' (n + m) (si + c) (drop c rest)"
proof -
  have ne: "rest \<noteq> []" using assms(2,3) by auto
  obtain k where k: "n = 3 * k" "4 * k \<le> si"
    using assms(1) ne by (auto simp: short_inv_def)
  have len: "length dst = 16" and pos: "si + length rest < 24"
    using assms(1) by (auto simp: short_inv_def)
  have "\<exists>k'. n + m \<le> 3 * k' \<and> 4 * k' \<le> si + c \<and> (n + m = 3 * k' \<or> drop c rest = [])"
    using assms(5)
  proof
    assume "c = 4 \<and> m = 3"
    then have "n + m \<le> 3 * (k + 1) \<and> 4 * (k + 1) \<le> si + c \<and>
               (n + m = 3 * (k + 1) \<or> drop c rest = [])"
      using k by simp
    then show ?thesis by (rule exI[of _ "k + 1"])
  next
    assume "c = 8 \<and> m = 6"
    then have "n + m \<le> 3 * (k + 2) \<and> 4 * (k + 2) \<le> si + c \<and>
               (n + m = 3 * (k + 2) \<or> drop c rest = [])"
      using k by simp
    then show ?thesis by (rule exI[of _ "k + 2"])
  qed
  moreover have "si + c + length (drop c rest) < 24"
    using assms(2) pos by simp
  ultimately show ?thesis
    using assms(4) len unfolding short_inv_def by simp
qed

lemma decode_32_short:
  "short_inv dst n si rest \<Longrightarrow> short_result (decode_32 dst n si rest)"
proof (induction "length rest" arbitrary: dst n si rest rule: less_induct)
  case less
  show ?case
  proof (cases "4 \<le> length rest \<and> n + 4 \<le> length dst")
    case False
    then show ?thesis
      using decode_tail_short[OF less.prems]
      by (subst decode_32.simps) (simp only: if_False)
  next
    case True
    then have ne: "rest \<noteq> []" by auto
    show ?thesis
    proof (cases "assemble32 (decodeMap (rest ! 0)) (decodeMap (rest ! 1))
                    (decodeMap (rest ! 2)) (decodeMap (rest ! 3))")
      case (Some dn)
      have "short_inv (PutUint32 dst n dn) (n + 3) (si + 4) (drop 4 rest)"
        using short_inv_fast[OF less.prems, of 4 "PutUint32 dst n dn" 3] True
        by (simp add: PutUint32_def)
      moreover have "length (drop 4 rest) < length rest" using True by auto
      ultimately have "short_result (decode_32 (PutUint32 dst n dn) (n + 3) (si + 4) (drop 4 rest))"
        using less.hyps by blast
      then show ?thesis
        using True Some by (subst decode_32.simps) simp
    next
      case None
      obtain dst' r where q: "decodeQuantum dst n si rest = (dst', r)"
        by (cases "decodeQuantum dst n si rest") auto
      obtain si' rest' ninc err where
        r: "r = Return (si', rest', ninc, err)" "length rest' < length rest"
           "err = None \<longrightarrow> short_inv dst' (n + ninc) si' rest'"
        using quantum_step_short[OF less.prems ne q] by blast
      show ?thesis
      proof (cases err)
        case e: None
        have "short_result (decode_32 dst' (n + ninc) si' rest')"
          using less.hyps[OF r(2)] r(3) e by simp
        then show ?thesis
          using True None by (subst decode_32.simps) (simp add: q r(1) e)
      next
        case (Some e)
        then show ?thesis
          using True None by (subst decode_32.simps) (simp add: q r(1) short_result_def)
      qed
    qed
  qed
qed

lemma decode_64_short:
  "short_inv dst n si rest \<Longrightarrow> short_result (decode_64 dst n si rest)"
proof (induction "length rest" arbitrary: dst n si rest rule: less_induct)
  case less
  show ?case
  proof (cases "8 \<le> length rest \<and> n + 8 \<le> length dst")
    case False
    then show ?thesis
      using decode_32_short[OF less.prems]
      by (subst decode_64.simps) (simp only: if_False)
  next
    case True
    then have ne: "rest \<noteq> []" by auto
    show ?thesis
    proof (cases "assemble64 (decodeMap (rest ! 0)) (decodeMap (rest ! 1))
                    (decodeMap (rest ! 2)) (decodeMap (rest ! 3))
                    (decodeMap (rest ! 4)) (decodeMap (rest ! 5))
                    (decodeMap (rest ! 6)) (decodeMap (rest ! 7))")
      case (Some dn)
      have "short_inv (PutUint64 dst n dn) (n + 6) (si + 8) (drop 8 rest)"
        using short_inv_fast[OF less.prems, of 8 "PutUint64 dst n dn" 6] True
        by (simp add: PutUint64_def)
      moreover have "length (drop 8 rest) < length rest" using True by auto
      ultimately have "short_result (decode_64 (PutUint64 dst n dn) (n + 6) (si + 8) (drop 8 rest))"
        using less.hyps by blast
      then show ?thesis
        using True Some by (subst decode_64.simps) simp
    next
      case None
      obtain dst' r where q: "decodeQuantum dst n si rest = (dst', r)"
        by (cases "decodeQuantum dst n si rest") auto
      obtain si' rest' ninc err where
        r: "r = Return (si', rest', ninc, err)" "length rest' < length rest"
           "err = None \<longrightarrow> short_inv dst' (n + ninc) si' rest'"
        using quantum_step_short[OF less.prems ne q] by blast
      show ?thesis
      proof (cases err)
        case e: None
        have "short_result (decode_64 dst' (n + ninc) si' rest')"
          using less.hyps[OF r(2)] r(3) e by simp
        then show ?thesis
          using True None by (subst decode_64.simps) (simp add: q r(1) e)
      next
        case (Some e)
        then show ?thesis
          using True None by (subst decode_64.simps) (simp add: q r(1) short_result_def)
      qed
    qed
  qed
qed

text \<open>
  On every text of fewer than 24 characters \<open>UnmarshalText\<close> returns an error: it
  neither panics nor succeeds.
\<close>

lemma UnmarshalText_short_text_is_error:
  assumes "length t = 16" "length text < 24"
  shows "\<exists>t' err. UnmarshalText t text = (t', Return (Some err))"
proof -
  have "short_inv t 0 0 text"
    using assms by (simp add: short_inv_def)
  then have "short_result (Decode t text)"
    unfolding Decode_def by (rule decode_64_short)
  then obtain t' m err where d: "Decode t text = (t', Return (m, err))" "err = None \<longrightarrow> m \<noteq> 16"
    unfolding short_result_def by blast
  show ?thesis
    using d by (cases err) (simp_all add: UnmarshalText_def)
qed

text \<open>
  C4. The claim is that \<open>UnmarshalText\<close> returns a parse error, and neither succeeds nor
  crashes, on every text whose length is not 24, longer texts included. For shorter texts
  this is so (\<open>UnmarshalText_short_text_is_error\<close>). For longer texts the code does not
  do it: it checks the number of decoded bytes only after \<open>Decode\<close> has returned, and
  \<open>Decode\<close> is handed the 16 bytes of the receiver whatever the length of the text. On
  28 characters of valid base64 (21 bytes) the fast loops fill bytes 0 to 15 and stop at
  \<open>n = 15\<close>; the next quantum stores \<open>dst[2]\<close> into the one-byte slice \<open>dst[15:]\<close>:
  an index out of range, a panic of the goroutine instead of the error branch.
\<close>

theorem UnmarshalText_long_text_panics:
  "length ''AAAAAAAAAAAAAAAAAAAAAAAAAAAA'' = 28 \<and>
   length zeroToken = 16 \<and>
   UnmarshalText zeroToken ''AAAAAAAAAAAAAAAAAAAAAAAAAAAA'' = (zeroToken, Panic)"
  by code_simp

text \<open>
  C10. \<open>UnmarshalText\<close> does not leave its receiver unchanged on error. On the four
  characters \<open>TWFu\<close>, valid base64 of the three bytes 77, 97, 110, called on a receiver
  of sixteen \<open>0xFF\<close> bytes, it returns the error "expected 16 bytes" and the receiver
  starts with the three decoded bytes (and the zero byte that \<open>PutUint32\<close> stores after
  them); the other twelve bytes are as before.
\<close>

theorem UnmarshalText_error_overwrites_receiver:
  "UnmarshalText (replicate 16 0xFF) ''TWFu'' =
     ([77, 97, 110, 0] @ replicate 12 0xFF,
      Return (Some (Errorf ''token: expected 16 bytes, was 4''))) \<and>
   [77, 97, 110, 0] @ replicate 12 0xFF \<noteq> (replicate 16 0xFF :: Token) \<and>
   Decode zeroToken ''TWFu'' = ([77, 97, 110] @ replicate 13 0, Return (3, None)) \<and>
   (\<exists>t text t' e. length t = 16 \<and> length text < 24 \<and>
      UnmarshalText t text = (t', Return (Some e)) \<and> take 3 t' \<noteq> take 3 t \<and>
      take 3 t' = take 3 (fst (Decode zeroToken text)))"
proof -
  have a: "UnmarshalText (replicate 16 0xFF) ''TWFu'' =
     ([77, 97, 110, 0] @ replicate 12 0xFF,
      Return (Some (Errorf ''token: expected 16 bytes, was 4'')))"
    by code_simp
  have b: "[77, 97, 110, 0] @ replicate 12 0xFF \<noteq> (replicate 16 0xFF :: Token)"
    by code_simp
  have c: "Decode zeroToken ''TWFu'' = ([77, 97, 110] @ replicate 13 0, Return (3, None))"
    by code_simp
  have d: "length (replicate 16 0xFF :: Token) = 16 \<and> length ''TWFu'' < 24 \<and>
      take 3 ([77, 97, 110, 0] @ replicate 12 0xFF) \<noteq> take 3 (replicate 16 0xFF :: Token) \<and>
      take 3 ([77, 97, 110, 0] @ replicate 12 0xFF :: Token) = take 3 ([77, 97, 110] @ replicate 13 0)"
    by code_simp
  have e: "\<exists>t text t' e. length t = 16 \<and> length text < 24 \<and>
      UnmarshalText t text = (t', Return (Some e)) \<and> take 3 t' \<noteq> take 3 t \<and>
      take 3 t' = take 3 (fst (Decode zeroToken text))"
    apply (rule exI[of _ "replicate 16 0xFF"])
    apply (rule exI[of _ "''TWFu''"])
    apply (rule exI[of _ "[77, 97, 110, 0] @ replicate 12 0xFF"])
    apply (rule exI[of _ "Errorf ''token: expected 16 bytes, was 4''"])
    using a c d by simp
  show ?thesis using a b c e by blast
qed


section \<open>The store and the authenticator\<close>

subsection \<open>Queries on lists of rows\<close>



lemma find_in_set:
  "find P xs = Some x \<Longrightarrow> x \<in> set xs \<and> P x"
  by (induction xs) (auto split: if_splits)

lemma find_exists:
  "x \<in> set xs \<Longrightarrow> P x \<Longrightarrow> \<exists>y. find P xs = Some y"
  by (induction xs) auto



subsection \<open>Transactions\<close>

lemma Rollback_keeps: "fst (Rollback d t) = d"
  by (simp add: Rollback_def)

lemma GenerateToken_cases:
  "GenerateToken e d uid start endt = (c, t, err) \<Longrightarrow>
     (err \<noteq> None \<and> c = d) \<or>
     (err = None \<and> t = fst (rand_Read e) \<and> t \<notin> tok_token ` set (tokens d) \<and>
      c = d\<lparr>tokens := tokens d @
             [\<lparr>tok_uid = uid, tok_token = t, tok_start = UnixMilli start,
               tok_end = UnixMilli endt\<rparr>]\<rparr>)"
  by (auto simp: GenerateToken_def split: prod.splits option.splits if_splits)


subsection \<open>Credential check\<close>

text \<open>
  C2. For every set of stored users: when the identifier matches no user, and when it
  matches a user but bcrypt reports that the password does not match the stored hash,
  the credential check \<open>Authenticate\<close> returns the same error value, \<open>errBadCredentials\<close>
  itself and not a wrapper of it, so the caller cannot tell the two causes apart.
\<close>

theorem Authenticate_unknown_user_same_as_wrong_password:
  assumes "store_fault e OpAuthenticate = None"
    and "\<forall>u \<in> set (users d). user_id u \<noteq> unknown \<and> user_email u \<noteq> unknown"
    and "\<exists>u \<in> set (users d). user_id u = known \<or> user_email u = known"
    and "\<forall>u \<in> set (users d). user_id u = known \<or> user_email u = known \<longrightarrow>
           bcrypt_CompareHashAndPassword e (user_bcrypt u) wrong = Some ErrMismatchedHashAndPassword"
  shows "Authenticate e d unknown password = Some errBadCredentials \<and>
         Authenticate e d known wrong = Some errBadCredentials \<and>
         Authenticate e d unknown password = Authenticate e d known wrong"
proof -
  have none: "find (\<lambda>u. user_id u = unknown \<or> user_email u = unknown) (users d) = None"
    using assms(2) by (auto simp: find_None_iff)
  obtain u where u: "find (\<lambda>u. user_id u = known \<or> user_email u = known) (users d) = Some u"
    using assms(3) find_exists[of _ "users d" "\<lambda>u. user_id u = known \<or> user_email u = known"]
    by blast
  have "u \<in> set (users d) \<and> (user_id u = known \<or> user_email u = known)"
    using find_in_set[OF u] .
  then have cmp: "bcrypt_CompareHashAndPassword e (user_bcrypt u) wrong = Some ErrMismatchedHashAndPassword"
    using assms(4) by blast
  have a: "Authenticate e d unknown password = Some errBadCredentials"
    by (simp add: Authenticate_def QueryRow_Scan_def assms(1) none)
  have b: "Authenticate e d known wrong = Some errBadCredentials"
    by (simp add: Authenticate_def QueryRow_Scan_def assms(1) u cmp)
  show ?thesis using a b by simp
qed

theorem Authenticate_unknown_user_same_as_wrong_password_witness:
  "store_fault ex_env OpAuthenticate = None \<and>
   map user_id (users ex_db) = [''hunter''] \<and>
   map user_email (users ex_db) = [''hunter@hherman.com''] \<and>
   bcrypt_CompareHashAndPassword ex_env (map of_char ''test123'') ''pw2'' =
     Some ErrMismatchedHashAndPassword \<and>
   Authenticate ex_env ex_db ''fake'' ''pw2'' = Some errBadCredentials \<and>
   Authenticate ex_env ex_db ''hunter'' ''pw2'' = Some errBadCredentials \<and>
   Authenticate ex_env ex_db ''fake'' ''pw2'' = Authenticate ex_env ex_db ''hunter'' ''pw2''"
proof -
  have h1: "store_fault ex_env OpAuthenticate = None"
    by (simp add: ex_env_def)
  have h2: "\<forall>u \<in> set (users ex_db). user_id u \<noteq> ''fake'' \<and> user_email u \<noteq> ''fake''"
    by (simp add: ex_db_def)
  have h3: "\<exists>u \<in> set (users ex_db). user_id u = ''hunter'' \<or> user_email u = ''hunter''"
    by (simp add: ex_db_def)
  have h4: "\<forall>u \<in> set (users ex_db). user_id u = ''hunter'' \<or> user_email u = ''hunter'' \<longrightarrow>
      bcrypt_CompareHashAndPassword ex_env (user_bcrypt u) ''pw2'' = Some ErrMismatchedHashAndPassword"
    by (simp add: ex_db_def ex_env_def)
  have h5: "map user_id (users ex_db) = [''hunter'']"
    "map user_email (users ex_db) = [''hunter@hherman.com'']"
    "bcrypt_CompareHashAndPassword ex_env (map of_char ''test123'') ''pw2'' =
       Some ErrMismatchedHashAndPassword"
    by (simp_all add: ex_db_def ex_env_def)
  show ?thesis
    using Authenticate_unknown_user_same_as_wrong_password[OF h1 h2 h3 h4, of "''pw2''"] h1 h5
    by simp
qed

subsection \<open>Tokens and their window\<close>



subsection \<open>Reaping\<close>




subsection \<open>Authenticate is all or nothing\<close>

lemma DBAuthenticator_Authenticate_unfold:
  "DBAuthenticator_Authenticate e d email password =
     (case store_fault e OpBegin of
        Some err \<Rightarrow> (d, zeroToken, now1 e + 24 * Hour, Some (Wrapped ''open transaction'' err))
      | None \<Rightarrow>
          (case Authenticate e d email password of
             Some err \<Rightarrow> (d, zeroToken, now1 e + 24 * Hour, Some (Wrapped ''authorization'' err))
           | None \<Rightarrow>
               (case LookupByEmail e d email of
                  (uid, Some err) \<Rightarrow>
                    (d, zeroToken, now1 e + 24 * Hour, Some (Wrapped ''lookup email'' err))
                | (uid, None) \<Rightarrow>
                    (case GenerateToken e d uid (now2 e - Second) (now1 e + 24 * Hour) of
                       (conn, t, Some err) \<Rightarrow>
                         (d, t, now1 e + 24 * Hour, Some (Wrapped ''generate token'' err))
                     | (conn, t, None) \<Rightarrow>
                         (case store_fault e OpCommit of
                            Some err \<Rightarrow> (d, t, now1 e + 24 * Hour, Some (Wrapped ''commit'' err))
                          | None \<Rightarrow> (conn, t, now1 e + 24 * Hour, None))))))"
proof (cases "store_fault e OpBegin")
  case (Some err)
  then show ?thesis
    by (simp add: DBAuthenticator_Authenticate_def Let_def BeginTx_def)
next
  case b: None
  show ?thesis
  proof (cases "Authenticate e d email password")
    case (Some err)
    then show ?thesis using b
      by (simp add: DBAuthenticator_Authenticate_def Let_def BeginTx_def Rollback_keeps)
  next
    case a: None
    obtain uid lerr where l: "LookupByEmail e d email = (uid, lerr)"
      by (cases "LookupByEmail e d email") auto
    show ?thesis
    proof (cases lerr)
      case (Some err)
      then show ?thesis using b a l
        by (simp add: DBAuthenticator_Authenticate_def Let_def BeginTx_def Rollback_keeps)
    next
      case ln: None
      obtain conn t gerr where
        g: "GenerateToken e d uid (now2 e - Second) (now1 e + 24 * Hour) = (conn, t, gerr)"
        by (metis prod_cases3)
      show ?thesis
      proof (cases gerr)
        case (Some err)
        then show ?thesis using b a l ln g
          by (simp add: DBAuthenticator_Authenticate_def Let_def BeginTx_def Rollback_keeps)
      next
        case gn: None
        show ?thesis
        proof (cases "store_fault e OpCommit")
          case None
          then show ?thesis using b a l ln g gn
            by (simp add: DBAuthenticator_Authenticate_def Let_def BeginTx_def Commit_def
                          Rollback_def)
        next
          case (Some err)
          then show ?thesis using b a l ln g gn
            by (simp add: DBAuthenticator_Authenticate_def Let_def BeginTx_def Commit_def
                          Rollback_def)
        qed
      qed
    qed
  qed
qed

lemma DBAuthenticator_Authenticate_result:
  assumes "LookupByEmail e d email = (uid, lerr)"
    and "GenerateToken e d uid (now2 e - Second) (now1 e + 24 * Hour) = (conn, t, gerr)"
  shows "DBAuthenticator_Authenticate e d email password =
     (case store_fault e OpBegin of
        Some err \<Rightarrow> (d, zeroToken, now1 e + 24 * Hour, Some (Wrapped ''open transaction'' err))
      | None \<Rightarrow>
          (case Authenticate e d email password of
             Some err \<Rightarrow> (d, zeroToken, now1 e + 24 * Hour, Some (Wrapped ''authorization'' err))
           | None \<Rightarrow>
               (case lerr of
                  Some err \<Rightarrow>
                    (d, zeroToken, now1 e + 24 * Hour, Some (Wrapped ''lookup email'' err))
                | None \<Rightarrow>
                    (case gerr of
                       Some err \<Rightarrow>
                         (d, t, now1 e + 24 * Hour, Some (Wrapped ''generate token'' err))
                     | None \<Rightarrow>
                         (case store_fault e OpCommit of
                            Some err \<Rightarrow> (d, t, now1 e + 24 * Hour, Some (Wrapped ''commit'' err))
                          | None \<Rightarrow> (conn, t, now1 e + 24 * Hour, None))))))"
  unfolding DBAuthenticator_Authenticate_unfold assms
  by (simp split: option.splits add: assms)

lemma DBAuthenticator_Authenticate_failure:
  assumes "snd (snd (snd (DBAuthenticator_Authenticate e d email password))) \<noteq> None"
  shows "fst (DBAuthenticator_Authenticate e d email password) = d"
proof -
  obtain uid lerr where l: "LookupByEmail e d email = (uid, lerr)"
    by (cases "LookupByEmail e d email") auto
  obtain conn t gerr where
    g: "GenerateToken e d uid (now2 e - Second) (now1 e + 24 * Hour) = (conn, t, gerr)"
    by (metis prod_cases3)
  show ?thesis
    using assms unfolding DBAuthenticator_Authenticate_result[OF l g]
    by (cases "store_fault e OpBegin"; cases "Authenticate e d email password"; cases lerr;
        cases gerr; cases "store_fault e OpCommit"; simp)
qed

lemma DBAuthenticator_Authenticate_success_steps:
  assumes "snd (snd (snd (DBAuthenticator_Authenticate e d email password))) = None"
  shows "store_fault e OpBegin = None" "Authenticate e d email password = None"
    "snd (LookupByEmail e d email) = None"
    "snd (snd (GenerateToken e d (fst (LookupByEmail e d email)) (now2 e - Second)
                 (now1 e + 24 * Hour))) = None"
    "store_fault e OpCommit = None"
proof -
  obtain uid lerr where l: "LookupByEmail e d email = (uid, lerr)"
    by (cases "LookupByEmail e d email") auto
  obtain conn t gerr where
    g: "GenerateToken e d uid (now2 e - Second) (now1 e + 24 * Hour) = (conn, t, gerr)"
    by (metis prod_cases3)
  have all: "store_fault e OpBegin = None \<and> Authenticate e d email password = None \<and>
             lerr = None \<and> gerr = None \<and> store_fault e OpCommit = None"
    using assms unfolding DBAuthenticator_Authenticate_result[OF l g]
    by (cases "store_fault e OpBegin"; cases "Authenticate e d email password"; cases lerr;
        cases gerr; cases "store_fault e OpCommit"; simp)
  show "store_fault e OpBegin = None" "Authenticate e d email password = None"
    "snd (LookupByEmail e d email) = None"
    "snd (snd (GenerateToken e d (fst (LookupByEmail e d email)) (now2 e - Second)
                 (now1 e + 24 * Hour))) = None"
    "store_fault e OpCommit = None"
    using all l g by simp_all
qed

lemma DBAuthenticator_Authenticate_success:
  assumes "snd (snd (snd (DBAuthenticator_Authenticate e d email password))) = None"
  shows "Authenticate e d email password = None \<and>
         snd (LookupByEmail e d email) = None \<and>
         users (fst (DBAuthenticator_Authenticate e d email password)) = users d \<and>
         tokens (fst (DBAuthenticator_Authenticate e d email password)) =
           tokens d @ [\<lparr>tok_uid = fst (LookupByEmail e d email),
                        tok_token = fst (snd (DBAuthenticator_Authenticate e d email password)),
                        tok_start = UnixMilli (now2 e - Second),
                        tok_end = UnixMilli (now1 e + 24 * Hour)\<rparr>]"
proof -
  let ?uid = "fst (LookupByEmail e d email)"
  note steps = DBAuthenticator_Authenticate_success_steps[OF assms]
  obtain conn t gerr where
    g: "GenerateToken e d ?uid (now2 e - Second) (now1 e + 24 * Hour) = (conn, t, gerr)"
    by (metis prod_cases3)
  have gn: "gerr = None" using steps(4) g by simp
  have l: "LookupByEmail e d email = (?uid, None)"
    using steps(3) by (metis prod.collapse)
  have r: "DBAuthenticator_Authenticate e d email password = (conn, t, now1 e + 24 * Hour, None)"
    unfolding DBAuthenticator_Authenticate_result[OF l g]
    using steps(1,2,5) gn by simp
  have c: "conn = d\<lparr>tokens := tokens d @
             [\<lparr>tok_uid = ?uid, tok_token = t, tok_start = UnixMilli (now2 e - Second),
               tok_end = UnixMilli (now1 e + 24 * Hour)\<rparr>]\<rparr>"
    using GenerateToken_cases[OF g] gn by simp
  show ?thesis
    using steps(2,3) by (simp add: r c)
qed

text \<open>
  C1. \<open>DBAuthenticator.Authenticate\<close> is atomic. Whenever it returns an error the
  database is exactly as it was before the call: no token row is persisted. Each step
  that fails makes it return an error: opening the transaction, the credential check,
  resolving the email to the user id, generating the token, the commit. In particular,
  for every store and every pair of email and password for which the credential check
  fails, the stored tokens after the call are the stored tokens before it. And the other
  half of "no partial state": when it returns without error, the credential check had
  succeeded and exactly one row was added, the returned token for the user of that email.
\<close>

theorem DBAuthenticator_Authenticate_atomic:
  "let R = DBAuthenticator_Authenticate e d email password;
       d' = fst R; t = fst (snd R); err = snd (snd (snd R))
   in (err \<noteq> None \<longrightarrow> d' = d) \<and>
      (store_fault e OpBegin \<noteq> None \<longrightarrow> err \<noteq> None) \<and>
      (Authenticate e d email password \<noteq> None \<longrightarrow>
         err \<noteq> None \<and> tokens d' = tokens d \<and> set (tokens d') = set (tokens d)) \<and>
      (snd (LookupByEmail e d email) \<noteq> None \<longrightarrow> err \<noteq> None) \<and>
      (snd (snd (GenerateToken e d (fst (LookupByEmail e d email)) (now2 e - Second)
                   (now1 e + 24 * Hour))) \<noteq> None \<longrightarrow> err \<noteq> None) \<and>
      (store_fault e OpCommit \<noteq> None \<longrightarrow> err \<noteq> None) \<and>
      (err = None \<longrightarrow>
         Authenticate e d email password = None \<and> users d' = users d \<and>
         tokens d' = tokens d @ [\<lparr>tok_uid = fst (LookupByEmail e d email), tok_token = t,
                                  tok_start = UnixMilli (now2 e - Second),
                                  tok_end = UnixMilli (now1 e + 24 * Hour)\<rparr>])"
proof (cases "snd (snd (snd (DBAuthenticator_Authenticate e d email password))) = None")
  case True
  note steps = DBAuthenticator_Authenticate_success_steps[OF True]
  note ok = DBAuthenticator_Authenticate_success[OF True]
  show ?thesis
    unfolding Let_def using True steps ok by simp
next
  case False
  have "fst (DBAuthenticator_Authenticate e d email password) = d"
    using DBAuthenticator_Authenticate_failure[OF False] .
  then show ?thesis
    unfolding Let_def using False by simp
qed

theorem DBAuthenticator_Authenticate_atomic_witness:
  "Authenticate ex_env ex_db ''hunter@hherman.com'' ''wrong'' = Some errBadCredentials \<and>
   DBAuthenticator_Authenticate ex_env ex_db ''hunter@hherman.com'' ''wrong'' =
     (ex_db, zeroToken, 1 * Second + 24 * Hour, Some (Wrapped ''authorization'' errBadCredentials)) \<and>
   tokens (fst (DBAuthenticator_Authenticate ex_env ex_db ''hunter@hherman.com'' ''wrong'')) =
     tokens ex_db \<and>
   snd (snd (snd (DBAuthenticator_Authenticate ex_env ex_db ''hunter@hherman.com'' ''test123''))) = None \<and>
   tokens (fst (DBAuthenticator_Authenticate ex_env ex_db ''hunter@hherman.com'' ''test123'')) =
     [\<lparr>tok_uid = ''hunter'', tok_token = ex_token, tok_start = 1000, tok_end = 86401000\<rparr>]"
proof -
  have a: "Authenticate ex_env ex_db ''hunter@hherman.com'' ''wrong'' = Some errBadCredentials"
    by (simp add: Authenticate_def QueryRow_Scan_def ex_env_def ex_db_def)
  have f: "store_fault ex_env OpBegin = None" "now1 ex_env = 1 * Second"
    by (simp_all add: ex_env_def)
  have b: "DBAuthenticator_Authenticate ex_env ex_db ''hunter@hherman.com'' ''wrong'' =
     (ex_db, zeroToken, 1 * Second + 24 * Hour, Some (Wrapped ''authorization'' errBadCredentials))"
    by (simp add: DBAuthenticator_Authenticate_def BeginTx_def Rollback_def a f)
  have c: "DBAuthenticator_Authenticate ex_env ex_db ''hunter@hherman.com'' ''test123'' =
     (ex_db\<lparr>tokens := [\<lparr>tok_uid = ''hunter'', tok_token = ex_token, tok_start = 1000,
                        tok_end = 86401000\<rparr>]\<rparr>,
      ex_token, 1 * Second + 24 * Hour, None)"
    by (simp add: DBAuthenticator_Authenticate_def BeginTx_def Rollback_def Commit_def
                  Authenticate_def QueryRow_Scan_def LookupByEmail_def GenerateToken_def ex_env_def ex_db_def
                  UnixMilli_def Second_def Hour_def)
  show ?thesis
    using DBAuthenticator_Authenticate_atomic[of ex_env ex_db "''hunter@hherman.com''" "''wrong''"]
          DBAuthenticator_Authenticate_atomic[of ex_env ex_db "''hunter@hherman.com''" "''test123''"]
          a b c
    by (simp add: Let_def ex_db_def)
qed


section \<open>The HTTP boundary\<close>

subsection \<open>The authorization filter\<close>




subsection \<open>Status codes of login and signup\<close>

lemma Status_http_Error: "Status (http_Error hdr msg code) = code"
  by (simp add: http_Error_def)

lemma Status_http_Redirect: "Status (http_Redirect hdr r url code) = code"
  by (simp add: http_Redirect_def)

text \<open>
  C7, as the claim states it, fails on the code: a hashing failure and a store failure
  reached through the signup POST are answered with status 400, not 500. The password of
  \<open>ex_long_password\<close> is longer than bcrypt accepts; the connection of \<open>ex_broken_store\<close>
  fails on the insert of the user. Neither is a bad login credential, a malformed form, a
  wrong method or a registration conflict.
\<close>

theorem signup_internal_failure_answers_400:
  "Method ex_long_password = ''POST'' \<and> ParseForm ex_long_password = None \<and>
   mail_ParseAddress ex_env (PostFormValue ex_long_password ''email'') = None \<and>
   snd (bcrypt_GenerateFromPassword ex_env (PostFormValue ex_long_password ''password'')) =
     Some (External ''bcrypt: password length exceeds 72 bytes'') \<and>
   signupPageHandler ex_time_format (DBAuthenticator ex_env) ex_db ex_long_password =
     (ex_db, http_Error [] ''create user: hash pw: bcrypt: password length exceeds 72 bytes'' 400) \<and>
   Status (snd (signupPageHandler ex_time_format (DBAuthenticator ex_env) ex_db ex_long_password))
     \<noteq> 500 \<and>
   Method ex_request = ''POST'' \<and> ParseForm ex_request = None \<and>
   store_fault ex_broken_store OpInsertUser = Some (External ''disk I/O error'') \<and>
   signupPageHandler ex_time_format (DBAuthenticator ex_broken_store) ex_db ex_request =
     (ex_db, http_Error [] ''create user: insert user: disk I/O error'' 400) \<and>
   Status (snd (signupPageHandler ex_time_format (DBAuthenticator ex_broken_store) ex_db ex_request))
     \<noteq> 500"
proof -
  have req: "Method ex_long_password = ''POST''" "ParseForm ex_long_password = None"
    "PostFormValue ex_long_password ''email'' = ''a@x.com''"
    "PostFormValue ex_long_password ''password'' = replicate 73 CHR ''a''"
    "Method ex_request = ''POST''" "ParseForm ex_request = None"
    "PostFormValue ex_request ''email'' = ''a@x.com''"
    "PostFormValue ex_request ''password'' = ''pw1''"
    by (simp_all add: ex_long_password_def ex_request_def PostFormValue_def Get_def)
  have mail: "mail_ParseAddress ex_env ''a@x.com'' = None"
    "mail_ParseAddress ex_broken_store ''a@x.com'' = None"
    by (simp_all add: ex_env_def ex_broken_store_def)
  have hash: "bcrypt_GenerateFromPassword ex_env (replicate 73 CHR ''a'') =
      ([], Some (External ''bcrypt: password length exceeds 72 bytes''))"
    "bcrypt_GenerateFromPassword ex_broken_store ''pw1'' = (map of_char ''pw1'', None)"
    by (simp_all add: ex_env_def ex_broken_store_def)
  have fault: "store_fault ex_broken_store OpInsertUser = Some (External ''disk I/O error'')"
    by (simp add: ex_broken_store_def)
  have r1: "DBAuthenticator_Register ex_env ex_db ''a@x.com'' (replicate 73 CHR ''a'') =
      (ex_db, Some (Wrapped ''hash pw'' (External ''bcrypt: password length exceeds 72 bytes'')))"
    by (simp add: DBAuthenticator_Register_def RegisterUser_def mail hash)
  have r2: "DBAuthenticator_Register ex_broken_store ex_db ''a@x.com'' ''pw1'' =
      (ex_db, Some (Wrapped ''insert user'' (External ''disk I/O error'')))"
    by (simp add: DBAuthenticator_Register_def RegisterUser_def mail hash fault)
  have s1: "signupPageHandler ex_time_format (DBAuthenticator ex_env) ex_db ex_long_password =
     (ex_db, http_Error [] ''create user: hash pw: bcrypt: password length exceeds 72 bytes'' 400)"
    by (simp add: signupPageHandler_def req DBAuthenticator_def r1 StatusBadRequest_def)
  have s2: "signupPageHandler ex_time_format (DBAuthenticator ex_broken_store) ex_db ex_request =
     (ex_db, http_Error [] ''create user: insert user: disk I/O error'' 400)"
    by (simp add: signupPageHandler_def req DBAuthenticator_def r2 StatusBadRequest_def)
  show ?thesis
    by (simp add: req mail hash fault s1 s2 Status_http_Error)
qed

text \<open>
  C7, amended. Status 500 is the answer of the login path: a POST to the login handler
  whose form parses and whose \<open>Authenticate\<close> fails with an error that is not (a wrapper
  of) \<open>errBadCredentials\<close> gets 500, and one that is gets 401. On the signup path every
  error of \<open>Register\<close>, hashing and store failures included, gets 400; after a successful
  registration the request is answered by the login handler. A method other than GET and
  POST and a form that does not parse get 400 from both handlers.
\<close>

theorem login_and_signup_status_codes:
  "let email = PostFormValue r ''email'';
       password = PostFormValue r ''password'';
       lerr = snd (snd (snd (auth_Authenticate a s email password)));
       rerr = snd (auth_Register a s email password);
       login = snd (loginPageHandler F a s r);
       signup = snd (signupPageHandler F a s r)
   in (Method r \<noteq> ''GET'' \<and> Method r \<noteq> ''POST'' \<longrightarrow> Status login = 400 \<and> Status signup = 400) \<and>
      (Method r = ''POST'' \<and> ParseForm r \<noteq> None \<longrightarrow> Status login = 400 \<and> Status signup = 400) \<and>
      (Method r = ''POST'' \<and> ParseForm r = None \<longrightarrow>
         (\<forall>err. lerr = Some err \<and> \<not> errors_Is err errBadCredentials \<longrightarrow> Status login = 500) \<and>
         (\<forall>err. lerr = Some err \<and> errors_Is err errBadCredentials \<longrightarrow> Status login = 401) \<and>
         (lerr = None \<longrightarrow> Status login = 302) \<and>
         (rerr \<noteq> None \<longrightarrow> Status signup = 400) \<and>
         (rerr = None \<longrightarrow>
            signupPageHandler F a s r =
              loginPageHandler F a (fst (auth_Register a s email password)) r))"
proof -
  obtain s1 t x lerr where
    l: "auth_Authenticate a s (PostFormValue r ''email'') (PostFormValue r ''password'') =
          (s1, t, x, lerr)"
    by (metis prod_cases4)
  obtain s2 rerr where
    g: "auth_Register a s (PostFormValue r ''email'') (PostFormValue r ''password'') = (s2, rerr)"
    by (cases "auth_Register a s (PostFormValue r ''email'') (PostFormValue r ''password'')") auto
  have codes: "StatusBadRequest = 400" "StatusUnauthorized = 401"
    "StatusInternalServerError = 500" "StatusFound = 302"
    by (simp_all add: StatusBadRequest_def StatusUnauthorized_def
                      StatusInternalServerError_def StatusFound_def)
  have login: "Status (snd (loginPageHandler F a s r)) =
      (if Method r = ''GET'' then 200
       else if Method r \<noteq> ''POST'' then 400
       else if ParseForm r \<noteq> None then 400
       else case lerr of
              None \<Rightarrow> 302
            | Some err \<Rightarrow> if errors_Is err errBadCredentials then 401 else 500)"
    by (cases "ParseForm r"; cases lerr)
       (simp_all add: loginPageHandler_def Let_def l Status_http_Error Status_http_Redirect codes)
  have signup: "Method r = ''POST'' \<Longrightarrow> ParseForm r = None \<Longrightarrow> rerr = None \<Longrightarrow>
      signupPageHandler F a s r = loginPageHandler F a s2 r"
    by (simp add: signupPageHandler_def Let_def g)
  have signup_err: "Method r \<noteq> ''GET'' \<Longrightarrow> Method r \<noteq> ''POST'' \<or> ParseForm r \<noteq> None \<or> rerr \<noteq> None \<Longrightarrow>
      Status (snd (signupPageHandler F a s r)) = 400"
    by (cases "ParseForm r"; cases rerr)
       (auto simp: signupPageHandler_def Let_def g Status_http_Error codes)
  show ?thesis
    unfolding Let_def l g using login signup signup_err
    by (auto split: option.splits)
qed

theorem login_and_signup_status_codes_witness:
  "Method ex_long_password = ''POST'' \<and> ParseForm ex_long_password = None \<and>
   snd (auth_Register (DBAuthenticator ex_env) ex_db ''a@x.com'' (replicate 73 CHR ''a'')) =
     Some (Wrapped ''hash pw'' (External ''bcrypt: password length exceeds 72 bytes'')) \<and>
   Status (snd (signupPageHandler ex_time_format (DBAuthenticator ex_env) ex_db ex_long_password)) = 400 \<and>
   snd (snd (snd (auth_Authenticate (DBAuthenticator ex_broken_commit) ex_db
                    ''hunter@hherman.com'' ''test123''))) =
     Some (Wrapped ''commit'' (External ''disk I/O error'')) \<and>
   Status (snd (loginPageHandler ex_time_format (DBAuthenticator ex_broken_commit) ex_db ex_login)) = 500"
proof -
  have req: "Method ex_long_password = ''POST''" "ParseForm ex_long_password = None"
    "PostFormValue ex_long_password ''email'' = ''a@x.com''"
    "PostFormValue ex_long_password ''password'' = replicate 73 CHR ''a''"
    "Method ex_login = ''POST''" "ParseForm ex_login = None"
    "PostFormValue ex_login ''email'' = ''hunter@hherman.com''"
    "PostFormValue ex_login ''password'' = ''test123''"
    by (simp_all add: ex_long_password_def ex_login_def ex_request_def PostFormValue_def Get_def)
  have r1: "auth_Register (DBAuthenticator ex_env) ex_db ''a@x.com'' (replicate 73 CHR ''a'') =
      (ex_db, Some (Wrapped ''hash pw'' (External ''bcrypt: password length exceeds 72 bytes'')))"
    by (simp add: DBAuthenticator_def DBAuthenticator_Register_def RegisterUser_def ex_env_def)
  have a1: "snd (snd (snd (auth_Authenticate (DBAuthenticator ex_broken_commit) ex_db
                    ''hunter@hherman.com'' ''test123''))) =
     Some (Wrapped ''commit'' (External ''disk I/O error''))"
    by (simp add: DBAuthenticator_def DBAuthenticator_Authenticate_def BeginTx_def Rollback_def
                  Commit_def Authenticate_def QueryRow_Scan_def LookupByEmail_def GenerateToken_def
                  ex_broken_commit_def ex_env_def ex_db_def)
  have e: "\<not> errors_Is (Wrapped ''commit'' (External ''disk I/O error'')) errBadCredentials"
    by simp
  show ?thesis
    using login_and_signup_status_codes[of ex_long_password "DBAuthenticator ex_env" ex_db ex_time_format]
          login_and_signup_status_codes[of ex_login "DBAuthenticator ex_broken_commit" ex_db ex_time_format]
          req r1 a1 e
    by (simp add: Let_def)
qed


subsection \<open>Users registered through the server\<close>

lemma RegisterUser_cases:
  "RegisterUser e d uid email password = (d', err) \<Longrightarrow>
     (err \<noteq> None \<and> d' = d) \<or>
     (err = None \<and> uid \<notin> user_id ` set (users d) \<and> email \<notin> user_email ` set (users d) \<and>
      d' = d\<lparr>users := users d @
              [\<lparr>user_id = uid, user_email = email,
                user_bcrypt = fst (bcrypt_GenerateFromPassword e password),
                user_valid = False\<rparr>]\<rparr>)"
  by (auto simp: RegisterUser_def split: prod.splits option.splits if_splits)

lemma DBAuthenticator_methods:
  "auth_Authenticate (DBAuthenticator e) = DBAuthenticator_Authenticate e"
  "auth_Register (DBAuthenticator e) = DBAuthenticator_Register e"
  by (simp_all add: DBAuthenticator_def)

lemma DBAuthenticator_Authenticate_users:
  "users (fst (DBAuthenticator_Authenticate e d email password)) = users d"
proof (cases "snd (snd (snd (DBAuthenticator_Authenticate e d email password))) = None")
  case True
  then show ?thesis using DBAuthenticator_Authenticate_success by blast
next
  case False
  then show ?thesis using DBAuthenticator_Authenticate_failure by simp
qed

lemma loginPageHandler_users:
  "users (fst (loginPageHandler F (DBAuthenticator e) d r)) = users d"
proof -
  obtain d1 t x lerr where
    l: "DBAuthenticator_Authenticate e d (PostFormValue r ''email'') (PostFormValue r ''password'') =
          (d1, t, x, lerr)"
    by (metis prod_cases4)
  have "users d1 = users d"
    using DBAuthenticator_Authenticate_users[of e d "PostFormValue r ''email''"
            "PostFormValue r ''password''"] l by simp
  then show ?thesis
    by (cases "ParseForm r"; cases lerr)
       (simp_all add: loginPageHandler_def Let_def DBAuthenticator_methods l)
qed

lemma signupPageHandler_users:
  "users (fst (signupPageHandler F (DBAuthenticator e) d r)) = users d \<or>
   users (fst (signupPageHandler F (DBAuthenticator e) d r)) =
     users (fst (DBAuthenticator_Register e d (PostFormValue r ''email'')
                   (PostFormValue r ''password'')))"
proof -
  obtain d2 rerr where
    g: "DBAuthenticator_Register e d (PostFormValue r ''email'') (PostFormValue r ''password'') =
          (d2, rerr)"
    by (cases "DBAuthenticator_Register e d (PostFormValue r ''email'')
                 (PostFormValue r ''password'')") auto
  show ?thesis
    by (cases "ParseForm r"; cases rerr)
       (simp_all add: signupPageHandler_def Let_def DBAuthenticator_methods g loginPageHandler_users)
qed


lemma DBAuthenticator_Register_ok:
  assumes "snd (DBAuthenticator_Register e d em pw) = None"
  shows "fst (DBAuthenticator_Register e d em pw) =
           d\<lparr>users := users d @ [\<lparr>user_id = em, user_email = em,
                                   user_bcrypt = fst (bcrypt_GenerateFromPassword e pw),
                                   user_valid = False\<rparr>]\<rparr>"
proof -
  obtain d' err where r: "RegisterUser e d em em pw = (d', err)"
    by (cases "RegisterUser e d em em pw") auto
  have "err = None" using assms r by (simp add: DBAuthenticator_Register_def)
  then show ?thesis
    using RegisterUser_cases[OF r] r by (simp add: DBAuthenticator_Register_def)
qed

lemma DBAuthenticator_Register_err:
  assumes "snd (DBAuthenticator_Register e d em pw) \<noteq> None"
  shows "fst (DBAuthenticator_Register e d em pw) = d"
proof -
  obtain d' err where r: "RegisterUser e d em em pw = (d', err)"
    by (cases "RegisterUser e d em em pw") auto
  have "err \<noteq> None" using assms r by (simp add: DBAuthenticator_Register_def)
  then show ?thesis
    using RegisterUser_cases[OF r] r by (auto simp: DBAuthenticator_Register_def)
qed

lemma DBAuthenticator_Register_invariant:
  assumes "\<forall>u \<in> set (users d). user_id u = user_email u"
  shows "\<forall>u \<in> set (users (fst (DBAuthenticator_Register e d em pw))). user_id u = user_email u"
proof (cases "snd (DBAuthenticator_Register e d em pw) = None")
  case True
  show ?thesis
    unfolding DBAuthenticator_Register_ok[OF True] using assms by simp
next
  case False
  show ?thesis
    unfolding DBAuthenticator_Register_err[OF False] using assms by simp
qed

lemma signupPageHandler_invariant:
  assumes "\<forall>u \<in> set (users d). user_id u = user_email u"
  shows "\<forall>u \<in> set (users (fst (signupPageHandler F (DBAuthenticator e) d r))).
           user_id u = user_email u"
proof -
  have "users (fst (signupPageHandler F (DBAuthenticator e) d r)) = users d \<or>
        users (fst (signupPageHandler F (DBAuthenticator e) d r)) =
          users (fst (DBAuthenticator_Register e d (PostFormValue r ''email'')
                        (PostFormValue r ''password'')))"
    by (rule signupPageHandler_users)
  then show ?thesis
  proof
    assume "users (fst (signupPageHandler F (DBAuthenticator e) d r)) = users d"
    then show ?thesis using assms by simp
  next
    assume "users (fst (signupPageHandler F (DBAuthenticator e) d r)) =
          users (fst (DBAuthenticator_Register e d (PostFormValue r ''email'')
                        (PostFormValue r ''password'')))"
    then show ?thesis using DBAuthenticator_Register_invariant[OF assms] by simp
  qed
qed

lemma id_email_columns:
  assumes "\<forall>u \<in> set us. user_id u = user_email u"
  shows "map user_id us = map user_email us"
  using assms by (induction us) auto

text \<open>
  C9. A user created by \<open>DBAuthenticator.Register\<close>, the registration the signup handler
  calls, has its identifier equal to its email address: the new row, the only change to
  the store, carries the email in both columns. So when every stored user has been
  registered this way, this still holds after a registration and after a request to the
  signup handler, the id column and the email column hold the same values, and one is
  free of duplicates exactly when the other is.
\<close>

theorem Register_user_id_is_email:
  "let R = DBAuthenticator_Register e d email password;
       d' = fst R;
       after_signup = fst (signupPageHandler F (DBAuthenticator e) d r)
   in (snd R = None \<longrightarrow>
         users d' = users d @ [\<lparr>user_id = email, user_email = email,
                                 user_bcrypt = fst (bcrypt_GenerateFromPassword e password),
                                 user_valid = False\<rparr>] \<and>
         tokens d' = tokens d) \<and>
      (snd R \<noteq> None \<longrightarrow> d' = d) \<and>
      ((\<forall>u \<in> set (users d). user_id u = user_email u) \<longrightarrow>
         (\<forall>u \<in> set (users d'). user_id u = user_email u) \<and>
         map user_id (users d') = map user_email (users d') \<and>
         (distinct (map user_id (users d')) \<longleftrightarrow> distinct (map user_email (users d'))) \<and>
         (\<forall>u \<in> set (users after_signup). user_id u = user_email u) \<and>
         map user_id (users after_signup) = map user_email (users after_signup))"
proof -
  let ?R = "DBAuthenticator_Register e d email password"
  let ?S = "fst (signupPageHandler F (DBAuthenticator e) d r)"
  have ok: "snd ?R = None \<longrightarrow>
         users (fst ?R) = users d @ [\<lparr>user_id = email, user_email = email,
                                 user_bcrypt = fst (bcrypt_GenerateFromPassword e password),
                                 user_valid = False\<rparr>] \<and>
         tokens (fst ?R) = tokens d"
    using DBAuthenticator_Register_ok[of e d email password] by simp
  have err: "snd ?R \<noteq> None \<longrightarrow> fst ?R = d"
    using DBAuthenticator_Register_err[of e d email password] by simp
  have inv: "(\<forall>u \<in> set (users d). user_id u = user_email u) \<longrightarrow>
         (\<forall>u \<in> set (users (fst ?R)). user_id u = user_email u) \<and>
         map user_id (users (fst ?R)) = map user_email (users (fst ?R)) \<and>
         (distinct (map user_id (users (fst ?R))) \<longleftrightarrow> distinct (map user_email (users (fst ?R)))) \<and>
         (\<forall>u \<in> set (users ?S). user_id u = user_email u) \<and>
         map user_id (users ?S) = map user_email (users ?S)"
  proof
    assume h: "\<forall>u \<in> set (users d). user_id u = user_email u"
    have a: "\<forall>u \<in> set (users (fst ?R)). user_id u = user_email u"
      by (rule DBAuthenticator_Register_invariant[OF h])
    have b: "\<forall>u \<in> set (users ?S). user_id u = user_email u"
      by (rule signupPageHandler_invariant[OF h])
    have c: "map user_id (users (fst ?R)) = map user_email (users (fst ?R))"
      by (rule id_email_columns[OF a])
    have d: "map user_id (users ?S) = map user_email (users ?S)"
      by (rule id_email_columns[OF b])
    show "(\<forall>u \<in> set (users (fst ?R)). user_id u = user_email u) \<and>
         map user_id (users (fst ?R)) = map user_email (users (fst ?R)) \<and>
         (distinct (map user_id (users (fst ?R))) \<longleftrightarrow> distinct (map user_email (users (fst ?R)))) \<and>
         (\<forall>u \<in> set (users ?S). user_id u = user_email u) \<and>
         map user_id (users ?S) = map user_email (users ?S)"
    proof -
      have e: "distinct (map user_id (users (fst ?R))) \<longleftrightarrow>
               distinct (map user_email (users (fst ?R)))"
        by (simp only: c)
      from a b c d e show ?thesis by blast
    qed
  qed
  show ?thesis
    unfolding Let_def using ok err inv by blast
qed

theorem Register_user_id_is_email_witness:
  "snd (DBAuthenticator_Register ex_env \<lparr>users = [], tokens = []\<rparr> ''a@x.com'' ''pw1'') = None \<and>
   users (fst (DBAuthenticator_Register ex_env \<lparr>users = [], tokens = []\<rparr> ''a@x.com'' ''pw1'')) =
     [\<lparr>user_id = ''a@x.com'', user_email = ''a@x.com'', user_bcrypt = map of_char ''pw1'',
       user_valid = False\<rparr>] \<and>
   map user_id (users (fst (signupPageHandler ex_time_format (DBAuthenticator ex_env)
                              \<lparr>users = [], tokens = []\<rparr> ex_request))) =
     map user_email (users (fst (signupPageHandler ex_time_format (DBAuthenticator ex_env)
                              \<lparr>users = [], tokens = []\<rparr> ex_request))) \<and>
   users (fst (signupPageHandler ex_time_format (DBAuthenticator ex_env)
                 \<lparr>users = [], tokens = []\<rparr> ex_request)) =
     [\<lparr>user_id = ''a@x.com'', user_email = ''a@x.com'', user_bcrypt = map of_char ''pw1'',
       user_valid = False\<rparr>]"
proof -
  let ?d = "\<lparr>users = [], tokens = []\<rparr>"
  have r: "DBAuthenticator_Register ex_env ?d ''a@x.com'' ''pw1'' =
      (\<lparr>users = [\<lparr>user_id = ''a@x.com'', user_email = ''a@x.com'',
                   user_bcrypt = map of_char ''pw1'', user_valid = False\<rparr>], tokens = []\<rparr>, None)"
    by (simp add: DBAuthenticator_Register_def RegisterUser_def ex_env_def)
  have req: "Method ex_request = ''POST''" "ParseForm ex_request = None"
    "PostFormValue ex_request ''email'' = ''a@x.com''"
    "PostFormValue ex_request ''password'' = ''pw1''"
    by (simp_all add: ex_request_def PostFormValue_def Get_def)
  have s: "users (fst (signupPageHandler ex_time_format (DBAuthenticator ex_env) ?d ex_request)) =
     [\<lparr>user_id = ''a@x.com'', user_email = ''a@x.com'', user_bcrypt = map of_char ''pw1'',
       user_valid = False\<rparr>]"
    by (simp add: signupPageHandler_def req Let_def DBAuthenticator_methods r
                  loginPageHandler_users)
  have empty: "\<forall>u \<in> set (users ?d). user_id u = user_email u"
    by simp
  show ?thesis
    using Register_user_id_is_email[of ex_env ?d "''a@x.com''" "''pw1''" ex_time_format ex_request]
          empty r s
    by (simp add: Let_def)
qed


end
